theory Spec2Isabelle
  imports Main "HOL-Library.Word" "HOL-Library.Sublist"
begin

section \<open>Data model of the topic processor\<close>

text \<open>
  The embedding follows \<^verbatim>\<open>topic_processor.go\<close>. Go's \<^verbatim>\<open>int32\<close> is a 32-bit word; the
  conversion \<^verbatim>\<open>int32(x)\<close> of a Go \<^verbatim>\<open>int\<close> keeps the low 32 bits.
\<close>

type_synonym int32 = "32 word"

definition int32 :: "int \<Rightarrow> int32" where
  "int32 x = word_of_int x"

text \<open>
  \<^verbatim>\<open>IncomingMessage\<close>: the record read from an input topic. Its partition is converted
  with \<^verbatim>\<open>int32(incomingMessage.Partition)\<close> in \<^verbatim>\<open>onProducerAck\<close>, so it is a Go \<^verbatim>\<open>int\<close>.
\<close>

record IncomingMessage =
  im_Topic :: string
  im_Partition :: int
  im_Offset :: int

text \<open>
  \<^verbatim>\<open>ProducerMessage.Metadata\<close> is an \<^verbatim>\<open>interface{}\<close>. The type assertion
  \<^verbatim>\<open>Metadata.(*IncomingMessage)\<close> distinguishes three kinds of dynamic value: the nil
  interface, a \<^verbatim>\<open>*IncomingMessage\<close> (which may itself be a nil pointer), and a value of
  any other type.
\<close>

datatype metadata =
    NilInterface
  | IncomingMessagePtr "IncomingMessage option"
  | OtherType

record ProducerMessage =
  pm_Topic :: string
  pm_Partition :: int32
  pm_Value :: string
  Metadata :: metadata

record ConsumerMessage =
  cm_Topic :: string
  cm_Partition :: int32
  cm_Offset :: int

text \<open>Run-time panics of the Go code, and the process aborts of \<^verbatim>\<open>log.Fatal\<close>.\<close>

datatype panic = NilDereference | TypeAssertion | CloseOfClosedChannel

text \<open>
  The methods of \<^verbatim>\<open>partitionProcessor\<close> are called through a pointer and may change the
  partition processor they are called on. Their bodies are not part of
  \<^verbatim>\<open>topic_processor.go\<close>; they are parameters of the model, each taking the state of the
  partition processor and returning the new one beside its result.
\<close>

record 'pp pp_ops =
  isReadyForMessage :: "ConsumerMessage \<Rightarrow> 'pp \<Rightarrow> bool \<times> 'pp"
  process :: "ConsumerMessage \<Rightarrow> 'pp \<Rightarrow> (ProducerMessage list \<times> bool) \<times> 'pp"
  onProcessCompleted :: "'pp \<Rightarrow> 'pp"
  isReadyToCommit :: "'pp \<Rightarrow> bool \<times> 'pp"
  commit :: "'pp \<Rightarrow> 'pp"
  pp_onProducerAck :: "ProducerMessage \<Rightarrow> 'pp \<Rightarrow> 'pp"
  pp_onMarkOffsetsTick :: "'pp \<Rightarrow> 'pp"
  pp_onShutdown :: "'pp \<Rightarrow> 'pp"

text \<open>
  Everything the coordinator does that another component can observe is recorded as an
  action: a call of a partition-processor method (with the key of the processor in
  \<^verbatim>\<open>tp.partitionProcessors\<close> and, where it has one, its result), a send on
  \<^verbatim>\<open>tp.producer.Input()\<close>, a receive from a channel, a call of the user's
  \<^verbatim>\<open>MarkOffsetsHook\<close>, and the steps of the shutdown. A loop
  \<^verbatim>\<open>for _, pp := range tp.partitionProcessors\<close> visits the keys in an order Go leaves
  open; it is recorded as one action carrying the set of keys visited.
\<close>

datatype action =
    PP_isReadyForMessage int32 bool
  | PP_process int32 "ProducerMessage list" bool
  | ProducerInput ProducerMessage
  | ProducerSuccess "ProducerMessage option" bool
  | PP_onProducerAck int32 ProducerMessage
  | PP_onProcessCompleted int32
  | PP_isReadyToCommit int32 bool
  | MarkOffsetsHook
  | PP_commit int32
  | ConsumerReceived ConsumerMessage
  | TickReceived
  | Range_onMarkOffsetsTick "int32 set"
  | ShutdownReceived
  | CloseConsumerSyncChan
  | TickerStop
  | Range_onShutdown "int32 set"
  | ProducerClose
  | ClientClose
  | CloseShutdownChan
  | WaitGroupWait

text \<open>
  The environment of the coordinator is the sequence of events its channels offer, in the
  order in which they become ready: a consumer message on the merged stream, the producer
  input accepting a send, a receive from the success stream (the message pointer, \<^verbatim>\<open>nil\<close>
  as \<open>None\<close>, and the \<^verbatim>\<open>more\<close> flag, false once the channel is closed), a tick of the
  commit ticker, and the shutdown signal. A \<^verbatim>\<open>select\<close> or a receive takes the first
  pending event of a channel it waits on and leaves the others pending, in their order.
\<close>

datatype event =
    EvConsumer ConsumerMessage
  | EvWritable
  | EvSuccess "ProducerMessage option" bool
  | EvTick
  | EvShutdown

text \<open>The receive \<^verbatim>\<open>msg, more := <-tp.producer.Successes()\<close>.\<close>

fun recvSuccess :: "event list \<Rightarrow> ((ProducerMessage option \<times> bool) \<times> event list) option" where
  "recvSuccess [] = None"
| "recvSuccess (EvSuccess msg more' # es) = Some ((msg, more'), es)"
| "recvSuccess (e # es) =
     (case recvSuccess es of None \<Rightarrow> None | Some (r, es') \<Rightarrow> Some (r, e # es'))"

text \<open>
  The \<^verbatim>\<open>select\<close> of the submission loop: a send on the producer input or a receive from
  the success stream, whichever is ready first.
\<close>

datatype selected = SendReady | Received "ProducerMessage option" bool

fun selectInputOrSuccess :: "event list \<Rightarrow> (selected \<times> event list) option" where
  "selectInputOrSuccess [] = None"
| "selectInputOrSuccess (EvWritable # es) = Some (SendReady, es)"
| "selectInputOrSuccess (EvSuccess msg more' # es) = Some (Received msg more', es)"
| "selectInputOrSuccess (e # es) =
     (case selectInputOrSuccess es of None \<Rightarrow> None | Some (r, es') \<Rightarrow> Some (r, e # es'))"

section \<open>Routing of producer acknowledgements\<close>

text \<open>
  \<^verbatim>\<open>tp.partitionProcessors\<close> is a map from \<^verbatim>\<open>int32\<close> to pointers, filled once by
  \<^verbatim>\<open>NewTopicProcessor\<close> with a fresh partition processor per key and never changed
  afterwards; the model keeps the state of each partition processor under its key. A
  missing key yields a nil pointer.
\<close>

text \<open>
  Modelled from the spec: the bodies of the methods of \<^verbatim>\<open>partitionProcessor\<close> are missing
  from the sources. By section 4.2 each of them reads or updates the \<^verbatim>\<open>PartitionState\<close>
  held by its receiver, so a call on a nil receiver is a nil-pointer dereference; on a
  partition processor the call returns its result and leaves the new state under the key.
\<close>

definition callPP :: "(int32 \<rightharpoonup> 'pp) \<Rightarrow> int32 \<Rightarrow> ('pp \<Rightarrow> 'r \<times> 'pp) \<Rightarrow> panic + ('r \<times> (int32 \<rightharpoonup> 'pp))" where
  "callPP pps k method =
     (case pps k of
        None \<Rightarrow> Inl NilDereference
      | Some pp \<Rightarrow> (case method pp of (r, pp') \<Rightarrow> Inr (r, pps(k \<mapsto> pp'))))"

text \<open>\<^verbatim>\<open>onProducerAck\<close>: the new partition processors and the actions performed, or a panic.\<close>

definition onProducerAck ::
  "'pp pp_ops \<Rightarrow> (int32 \<rightharpoonup> 'pp) \<Rightarrow> ProducerMessage option \<Rightarrow> bool \<Rightarrow>
     panic + ((int32 \<rightharpoonup> 'pp) \<times> action list)" where
  "onProducerAck ops pps producerMessage more' =
     (if \<not> more' then Inr (pps, [])
      else case producerMessage of
        None \<Rightarrow> Inl NilDereference
      | Some pm \<Rightarrow>
          (case Metadata pm of
             NilInterface \<Rightarrow> Inl TypeAssertion
           | OtherType \<Rightarrow> Inl TypeAssertion
           | IncomingMessagePtr None \<Rightarrow> Inl NilDereference
           | IncomingMessagePtr (Some incomingMessage) \<Rightarrow>
               (case callPP pps (int32 (im_Partition incomingMessage))
                       (\<lambda>pp. ((), pp_onProducerAck ops pm pp)) of
                  Inl p \<Rightarrow> Inl p
                | Inr (_, pps') \<Rightarrow>
                    Inr (pps', [PP_onProducerAck (int32 (im_Partition incomingMessage)) pm]))))"

section \<open>The coordinator: handling one consumer message\<close>

text \<open>
  How a call of the coordinator ends: it returns, it is still blocked on its channels when
  the events of the environment are used up, it panics, or \<^verbatim>\<open>log.Fatal\<close> ends the process.
  The calls of \<^verbatim>\<open>log.Fatal\<close> are told apart by what they report:
  \<open>ContainerIDOutOfRange\<close> carries the container count and the container id, the others
  the topic, the partition or the error they print.
\<close>

datatype fatal =
    ContainerIDOutOfRange int int
  | MissingSerde string
  | NewClientError string
  | MissingPartitionMapping int
  | NewOffsetManagerError string
  | NewAsyncProducerError string
  | ProducerSendError string
  | ProducerCloseError string
  | ClientCloseError string

datatype outcome = Returned | Blocked | Panicked panic | Fatal fatal

text \<open>
  A run of a piece of the coordinator: how it ended, the partition processors, the actions
  it performed in order, and the events still pending.
\<close>

type_synonym 'pp run = "outcome \<times> (int32 \<rightharpoonup> 'pp) \<times> action list \<times> event list"

text \<open>
  \<open>emit as r\<close> is the run \<open>r\<close> after the actions \<open>as\<close>; \<open>andThen r f\<close> continues a run
  that has returned with \<open>f\<close> and stops where the run has stopped otherwise. The hook
  \<^verbatim>\<open>tp.config.Config.MarkOffsetsHook\<close> is a function of the user's; its call is an action.
\<close>

definition emit :: "action list \<Rightarrow> 'pp run \<Rightarrow> 'pp run" where
  "emit as r = (case r of (oc, pps, tr, env) \<Rightarrow> (oc, pps, as @ tr, env))"

definition andThen :: "'pp run \<Rightarrow> ((int32 \<rightharpoonup> 'pp) \<Rightarrow> event list \<Rightarrow> 'pp run) \<Rightarrow> 'pp run" where
  "andThen r f =
     (case r of (oc, pps, tr, env) \<Rightarrow>
        if oc = Returned then emit tr (f pps env) else (oc, pps, tr, env))"

lemma recvSuccess_length:
  "recvSuccess env = Some (r, env') \<Longrightarrow> length env = Suc (length env')"
  by (induction env arbitrary: r env' rule: recvSuccess.induct)
     (auto split: option.splits)

lemma selectInputOrSuccess_length:
  "selectInputOrSuccess env = Some (r, env') \<Longrightarrow> length env = Suc (length env')"
  by (induction env arbitrary: r env' rule: selectInputOrSuccess.induct)
     (auto split: option.splits)

text \<open>
  Lines 150 to 157: the loop that submits the output messages,
  \<^verbatim>\<open>for len(producerMessages) > 0 { select { ... } }\<close>.
\<close>

function submitProducerMessages ::
  "'pp pp_ops \<Rightarrow> (int32 \<rightharpoonup> 'pp) \<Rightarrow> ProducerMessage list \<Rightarrow> event list \<Rightarrow> 'pp run" where
  "submitProducerMessages ops pps [] env = (Returned, pps, [], env)"
| "submitProducerMessages ops pps (p # ps) env =
     (case selectInputOrSuccess env of
        None \<Rightarrow> (Blocked, pps, [], env)
      | Some (SendReady, env') \<Rightarrow>
          emit [ProducerInput p] (submitProducerMessages ops pps ps env')
      | Some (Received msg more', env') \<Rightarrow>
          (case onProducerAck ops pps msg more' of
             Inl pn \<Rightarrow> (Panicked pn, pps, [ProducerSuccess msg more'], env')
           | Inr (pps', as) \<Rightarrow>
               emit (ProducerSuccess msg more' # as)
                 (submitProducerMessages ops pps' (p # ps) env')))"
  by pat_completeness auto
termination
  by (relation "measure (\<lambda>(ops, pps, ps, env). length env)")
     (auto dest: selectInputOrSuccess_length)

text \<open>
  Lines 160 to 168: the loop that waits until the partition processor is ready to commit,
  then calls the hook and commits.
\<close>

function awaitCommit ::
  "'pp pp_ops \<Rightarrow> (int32 \<rightharpoonup> 'pp) \<Rightarrow> int32 \<Rightarrow> event list \<Rightarrow> 'pp run" where
  "awaitCommit ops pps k env =
     (case callPP pps k (isReadyToCommit ops) of
        Inl pn \<Rightarrow> (Panicked pn, pps, [], env)
      | Inr (ready, pps1) \<Rightarrow>
          if ready then
            (case callPP pps1 k (\<lambda>pp. ((), commit ops pp)) of
               Inl pn \<Rightarrow> (Panicked pn, pps1, [PP_isReadyToCommit k True, MarkOffsetsHook], env)
             | Inr (_, pps2) \<Rightarrow>
                 (Returned, pps2, [PP_isReadyToCommit k True, MarkOffsetsHook, PP_commit k], env))
          else
            (case recvSuccess env of
               None \<Rightarrow> (Blocked, pps1, [PP_isReadyToCommit k False], env)
             | Some ((msg, more'), env') \<Rightarrow>
                 (case onProducerAck ops pps1 msg more' of
                    Inl pn \<Rightarrow>
                      (Panicked pn, pps1,
                       [PP_isReadyToCommit k False, ProducerSuccess msg more'], env')
                  | Inr (pps2, as) \<Rightarrow>
                      emit ([PP_isReadyToCommit k False, ProducerSuccess msg more'] @ as)
                        (awaitCommit ops pps2 k env'))))"
  by pat_completeness auto
termination
  by (relation "measure (\<lambda>(ops, pps, k, env). length env)")
     (auto dest: recvSuccess_length)

text \<open>
  Lines 149 to 170: the branch taken once \<^verbatim>\<open>pp.isReadyForMessage\<close> has answered true:
  \<^verbatim>\<open>pp.process\<close>, the submission of its output messages, \<^verbatim>\<open>pp.onProcessCompleted\<close>
  and, when \<^verbatim>\<open>mustCommit\<close> is set, the commit wait.
\<close>

definition processReadyMessage ::
  "'pp pp_ops \<Rightarrow> (int32 \<rightharpoonup> 'pp) \<Rightarrow> ConsumerMessage \<Rightarrow> event list \<Rightarrow> 'pp run" where
  "processReadyMessage ops pps consumerMessage env =
     (let k = cm_Partition consumerMessage in
      case callPP pps k (process ops consumerMessage) of
        Inl pn \<Rightarrow> (Panicked pn, pps, [], env)
      | Inr ((producerMessages, mustCommit), pps1) \<Rightarrow>
          emit [PP_process k producerMessages mustCommit]
            (andThen (submitProducerMessages ops pps1 producerMessages env)
               (\<lambda>pps2 env2.
                  case callPP pps2 k (\<lambda>pp. ((), onProcessCompleted ops pp)) of
                    Inl pn \<Rightarrow> (Panicked pn, pps2, [], env2)
                  | Inr (_, pps3) \<Rightarrow>
                      emit [PP_onProcessCompleted k]
                        (if mustCommit then awaitCommit ops pps3 k env2
                         else (Returned, pps3, [], env2)))))"

text \<open>
  Lines 145 to 178: \<^verbatim>\<open>processConsumerMessage\<close>, the loop around the readiness test. The
  ticker channel it is given is never read in its body; the ticks are events of the
  environment that it does not wait for.
\<close>

function processConsumerMessage ::
  "'pp pp_ops \<Rightarrow> (int32 \<rightharpoonup> 'pp) \<Rightarrow> ConsumerMessage \<Rightarrow> event list \<Rightarrow> 'pp run" where
  "processConsumerMessage ops pps consumerMessage env =
     (let k = cm_Partition consumerMessage in
      case callPP pps k (isReadyForMessage ops consumerMessage) of
        Inl pn \<Rightarrow> (Panicked pn, pps, [], env)
      | Inr (ready, pps1) \<Rightarrow>
          if ready then
            emit [PP_isReadyForMessage k True]
              (processReadyMessage ops pps1 consumerMessage env)
          else
            (case recvSuccess env of
               None \<Rightarrow> (Blocked, pps1, [PP_isReadyForMessage k False], env)
             | Some ((msg, more'), env') \<Rightarrow>
                 (case onProducerAck ops pps1 msg more' of
                    Inl pn \<Rightarrow>
                      (Panicked pn, pps1,
                       [PP_isReadyForMessage k False, ProducerSuccess msg more'], env')
                  | Inr (pps2, as) \<Rightarrow>
                      emit ([PP_isReadyForMessage k False, ProducerSuccess msg more'] @ as)
                        (processConsumerMessage ops pps2 consumerMessage env'))))"
  by pat_completeness auto
termination
  by (relation "measure (\<lambda>(ops, pps, m, env). length env)")
     (auto dest: recvSuccess_length)

section \<open>The coordinator loop, the commit tick and the shutdown\<close>

text \<open>
  \<^verbatim>\<open>onMarkOffsetsTick\<close>: the hook, then \<^verbatim>\<open>onMarkOffsetsTick\<close> of every partition processor.
\<close>

definition onMarkOffsetsTick ::
  "'pp pp_ops \<Rightarrow> (int32 \<rightharpoonup> 'pp) \<Rightarrow> (int32 \<rightharpoonup> 'pp) \<times> action list" where
  "onMarkOffsetsTick ops pps =
     (\<lambda>k. map_option (pp_onMarkOffsetsTick ops) (pps k),
      [MarkOffsetsHook, Range_onMarkOffsetsTick (dom pps)])"

text \<open>
  \<^verbatim>\<open>onShutdown(ticker)\<close>. \<open>ticker\<close> says whether the ticker pointer is not nil;
  \<open>producerClose\<close> and \<open>clientClose\<close> are the errors returned by \<^verbatim>\<open>tp.producer.Close()\<close>
  and \<^verbatim>\<open>tp.client.Close()\<close>, \<open>None\<close> for nil.
\<close>

definition onShutdown ::
  "'pp pp_ops \<Rightarrow> bool \<Rightarrow> string option \<Rightarrow> string option \<Rightarrow> (int32 \<rightharpoonup> 'pp) \<Rightarrow>
     outcome \<times> (int32 \<rightharpoonup> 'pp) \<times> action list" where
  "onShutdown ops ticker producerClose clientClose pps =
     (let tr1 = (if ticker then [TickerStop] else []);
          pps' = (\<lambda>k. map_option (pp_onShutdown ops) (pps k));
          tr2 = tr1 @ [Range_onShutdown (dom pps), ProducerClose]
      in case producerClose of
           Some err \<Rightarrow> (Fatal (ProducerCloseError err), pps', tr2)
         | None \<Rightarrow>
             (case clientClose of
                Some err \<Rightarrow> (Fatal (ClientCloseError err), pps', tr2 @ [ClientClose])
              | None \<Rightarrow> (Returned, pps', tr2 @ [ClientClose])))"

text \<open>
  The \<^verbatim>\<open>select\<close> of \<^verbatim>\<open>runLoop\<close> waits on the merged consumer stream, the success
  stream, the ticker channel and the shutdown channel. Without a ticker the channel it
  waits on is never written, so no tick is ever received.
\<close>

datatype loopEvent =
    GotConsumer ConsumerMessage
  | GotSuccess "ProducerMessage option" bool
  | GotTick
  | GotShutdown

fun selectRunLoop :: "bool \<Rightarrow> event list \<Rightarrow> (loopEvent \<times> event list) option" where
  "selectRunLoop ticker [] = None"
| "selectRunLoop ticker (EvConsumer consumerMessage # es) = Some (GotConsumer consumerMessage, es)"
| "selectRunLoop ticker (EvSuccess msg more' # es) = Some (GotSuccess msg more', es)"
| "selectRunLoop ticker (EvShutdown # es) = Some (GotShutdown, es)"
| "selectRunLoop ticker (EvTick # es) =
     (if ticker then Some (GotTick, es)
      else case selectRunLoop ticker es of
        None \<Rightarrow> None | Some (r, es') \<Rightarrow> Some (r, EvTick # es'))"
| "selectRunLoop ticker (EvWritable # es) =
     (case selectRunLoop ticker es of
        None \<Rightarrow> None | Some (r, es') \<Rightarrow> Some (r, EvWritable # es'))"

text \<open>
  \<^verbatim>\<open>Shutdown\<close>, lines 104 to 107. \<open>closed\<close> says whether \<^verbatim>\<open>tp.shutdown\<close> is closed already
  (closing a closed channel panics); \<open>counters\<close> are the values the counter of
  \<^verbatim>\<open>tp.waitGroup\<close> takes from the call of \<^verbatim>\<open>Wait\<close> on. Every task registered with
  \<^verbatim>\<open>Add(1)\<close> calls \<^verbatim>\<open>Done\<close> when it terminates, so the counter is the number of
  registered tasks still running; \<^verbatim>\<open>Wait\<close> returns once the counter is zero.
\<close>

definition Shutdown :: "bool \<Rightarrow> nat list \<Rightarrow> outcome \<times> action list" where
  "Shutdown closed counters =
     (if closed then (Panicked CloseOfClosedChannel, [])
      else if 0 \<in> set counters then (Returned, [CloseShutdownChan, WaitGroupWait])
      else (Blocked, [CloseShutdownChan, WaitGroupWait]))"

text \<open>
  \<^verbatim>\<open>onProducerError\<close>, lines 218 to 220, and the task of \<^verbatim>\<open>runLoop\<close> that drains
  \<^verbatim>\<open>tp.producer.Errors()\<close>, lines 122 to 127. The list holds the errors delivered until the
  channel is closed; \<^verbatim>\<open>log.Fatal\<close> ends the process, so the loop goes on to the next error
  only if \<^verbatim>\<open>onProducerError\<close> returns.
\<close>

record ProducerError =
  pe_Msg :: "ProducerMessage option"
  pe_Err :: string

definition onProducerError :: "ProducerError \<Rightarrow> outcome" where
  "onProducerError err = Fatal (ProducerSendError (pe_Err err))"

fun drainProducerErrors :: "ProducerError list \<Rightarrow> outcome" where
  "drainProducerErrors [] = Returned"
| "drainProducerErrors (err # errs) =
     (case onProducerError err of
        Returned \<Rightarrow> drainProducerErrors errs
      | oc \<Rightarrow> oc)"

section \<open>Construction\<close>

text \<open>
  \<^verbatim>\<open>TopicSerde\<close> and \<^verbatim>\<open>Serde\<close>; a value of type \<^verbatim>\<open>interface{}\<close> is of type \<open>'v\<close>.
\<close>

type_synonym byte = "8 word"

record 'v Serde =
  Serialize :: "'v \<Rightarrow> byte list"
  Deserialize :: "byte list \<Rightarrow> 'v"

record 'v TopicSerde =
  KeySerde :: "'v Serde"
  ValueSerde :: "'v Serde"

text \<open>The fields of \<^verbatim>\<open>TopicProcessorConfig\<close> that \<^verbatim>\<open>NewTopicProcessor\<close> reads.\<close>

record 'v TopicProcessorConfig =
  BrokerList :: "string list"
  InputTopics :: "string list"
  TopicSerdes :: "string \<rightharpoonup> 'v TopicSerde"
  ContainerCount :: int
  PartitionToContainerID :: "int \<rightharpoonup> int"

text \<open>
  The calls into the client library that can fail: the error each of
  \<^verbatim>\<open>sarama.NewClient\<close>, \<^verbatim>\<open>sarama.NewOffsetManagerFromClient\<close> and
  \<^verbatim>\<open>sarama.NewAsyncProducer\<close> returns, \<open>None\<close> for nil.
\<close>

record broker =
  NewClient :: "string option"
  NewOffsetManagerFromClient :: "string option"
  NewAsyncProducer :: "string option"

record ('v, 'pp) TopicProcessor =
  config :: "'v TopicProcessorConfig"
  containerID :: int
  partitionProcessors :: "int32 \<rightharpoonup> 'pp"
  inputTopics :: "string list"
  partitions :: "int list"

text \<open>Lines 49 to 54: the first input topic without a serde.\<close>

fun missingSerde :: "(string \<rightharpoonup> 's) \<Rightarrow> string list \<Rightarrow> string option" where
  "missingSerde serdes [] = None"
| "missingSerde serdes (topic # topics) =
     (case serdes topic of None \<Rightarrow> Some topic | Some _ \<Rightarrow> missingSerde serdes topics)"

text \<open>Lines 62 to 67: the first partition without a container.\<close>

fun missingMapping :: "(int \<rightharpoonup> int) \<Rightarrow> int list \<Rightarrow> int option" where
  "missingMapping mapping [] = None"
| "missingMapping mapping (p # ps) =
     (case mapping p of None \<Rightarrow> Some p | Some _ \<Rightarrow> missingMapping mapping ps)"

text \<open>
  Lines 87 to 90: one call of the factory and one new partition processor per partition.
  \<open>makeProcessor i\<close> is what the \<open>i\<close>-th call of the factory returns.
\<close>

fun makePartitionProcessors ::
  "(nat \<Rightarrow> 'mp) \<Rightarrow> ('mp \<Rightarrow> int \<Rightarrow> 'pp) \<Rightarrow> nat \<Rightarrow> int list \<Rightarrow> (int32 \<rightharpoonup> 'pp) \<Rightarrow> (int32 \<rightharpoonup> 'pp)" where
  "makePartitionProcessors makeProcessor newPartitionProcessor i [] pps = pps"
| "makePartitionProcessors makeProcessor newPartitionProcessor i (p # ps) pps =
     makePartitionProcessors makeProcessor newPartitionProcessor (Suc i) ps
       (pps(int32 p \<mapsto> newPartitionProcessor (makeProcessor i) p))"

text \<open>
  \<^verbatim>\<open>mustSetupProducer\<close>, lines 238 to 252: \<^verbatim>\<open>log.Fatal\<close> when the producer cannot be
  created.
\<close>

definition mustSetupProducer :: "broker \<Rightarrow> fatal + unit" where
  "mustSetupProducer brk =
     (case NewAsyncProducer brk of
        Some err \<Rightarrow> Inl (NewAsyncProducerError err)
      | None \<Rightarrow> Inr ())"

text \<open>
  \<^verbatim>\<open>NewTopicProcessor\<close>, lines 43 to 92. \<^verbatim>\<open>config.partitionsForContainer\<close> and
  \<^verbatim>\<open>newPartitionProcessor\<close> are defined outside \<^verbatim>\<open>topic_processor.go\<close> and are parameters;
  the pointer to the topic processor that \<^verbatim>\<open>newPartitionProcessor\<close> receives is the same
  in every call.
\<close>

definition NewTopicProcessor ::
  "'v TopicProcessorConfig \<Rightarrow> ('v TopicProcessorConfig \<Rightarrow> int \<Rightarrow> int list) \<Rightarrow> broker \<Rightarrow>
   (nat \<Rightarrow> 'mp) \<Rightarrow> ('mp \<Rightarrow> int \<Rightarrow> 'pp) \<Rightarrow> int \<Rightarrow> fatal + ('v, 'pp) TopicProcessor" where
  "NewTopicProcessor cfg partitionsForContainer brk makeProcessor newPartitionProcessor cid =
     (if cid < 0 \<or> cid \<ge> ContainerCount cfg then
        Inl (ContainerIDOutOfRange (ContainerCount cfg) cid)
      else case missingSerde (TopicSerdes cfg) (InputTopics cfg) of
        Some topic \<Rightarrow> Inl (MissingSerde topic)
      | None \<Rightarrow>
      (case NewClient brk of
        Some err \<Rightarrow> Inl (NewClientError err)
      | None \<Rightarrow>
      (let ps = partitionsForContainer cfg cid in
       case missingMapping (PartitionToContainerID cfg) ps of
        Some p \<Rightarrow> Inl (MissingPartitionMapping p)
      | None \<Rightarrow>
      (case NewOffsetManagerFromClient brk of
        Some err \<Rightarrow> Inl (NewOffsetManagerError err)
      | None \<Rightarrow>
      (case mustSetupProducer brk of
        Inl f \<Rightarrow> Inl f
      | Inr _ \<Rightarrow>
          Inr \<lparr> config = cfg, containerID = cid,
                partitionProcessors =
                  makePartitionProcessors makeProcessor newPartitionProcessor 0 ps Map.empty,
                inputTopics = InputTopics cfg, partitions = ps \<rparr>)))))"

section \<open>Vocabulary for runs\<close>

text \<open>
  The events of the producer are the only ones \<^verbatim>\<open>processConsumerMessage\<close> waits for;
  \<open>pendingOthers\<close> are the other events of an environment, in their order.
\<close>

fun isProducerEvent :: "event \<Rightarrow> bool" where
  "isProducerEvent EvWritable = True"
| "isProducerEvent (EvSuccess msg more') = True"
| "isProducerEvent e = False"

definition pendingOthers :: "event list \<Rightarrow> event list" where
  "pendingOthers env = filter (\<lambda>e. \<not> isProducerEvent e) env"

text \<open>
  The messages sent on the producer input in a trace, in order; the actions by which an
  acknowledgement is received and routed; the actions of \<^verbatim>\<open>processConsumerMessage\<close>
  as opposed to those of the rest of the coordinator loop.
\<close>

fun inputsOf :: "action list \<Rightarrow> ProducerMessage list" where
  "inputsOf [] = []"
| "inputsOf (ProducerInput p # tr) = p # inputsOf tr"
| "inputsOf (a # tr) = inputsOf tr"

fun ackAction :: "action \<Rightarrow> bool" where
  "ackAction (ProducerSuccess msg more') = True"
| "ackAction (PP_onProducerAck k pm) = True"
| "ackAction a = False"

fun handlingAction :: "action \<Rightarrow> bool" where
  "handlingAction (PP_isReadyForMessage k b) = True"
| "handlingAction (PP_process k outs mc) = True"
| "handlingAction (ProducerInput p) = True"
| "handlingAction (ProducerSuccess msg b) = True"
| "handlingAction (PP_onProducerAck k pm) = True"
| "handlingAction (PP_onProcessCompleted k) = True"
| "handlingAction (PP_isReadyToCommit k b) = True"
| "handlingAction MarkOffsetsHook = True"
| "handlingAction (PP_commit k) = True"
| "handlingAction a = False"

text \<open>
  \<open>routable pps msg\<close>: the message pointer is not nil, its \<^verbatim>\<open>Metadata\<close> points to an
  incoming message, and the partition of that message has a partition processor.
  \<open>routed msg more\<close> are the actions of routing such an acknowledgement, and
  \<open>unroutableAck pps env\<close> says that some acknowledgement of the environment that
  carries a message is not routable.
\<close>

definition routable :: "(int32 \<rightharpoonup> 'pp) \<Rightarrow> ProducerMessage option \<Rightarrow> bool" where
  "routable pps msg =
     (case msg of
        None \<Rightarrow> False
      | Some pm \<Rightarrow>
          (case Metadata pm of
             IncomingMessagePtr (Some im) \<Rightarrow> pps (int32 (im_Partition im)) \<noteq> None
           | _ \<Rightarrow> False))"

definition routed :: "ProducerMessage option \<Rightarrow> bool \<Rightarrow> action list" where
  "routed msg more' =
     (if \<not> more' then []
      else case msg of
        None \<Rightarrow> []
      | Some pm \<Rightarrow>
          (case Metadata pm of
             IncomingMessagePtr (Some im) \<Rightarrow> [PP_onProducerAck (int32 (im_Partition im)) pm]
           | _ \<Rightarrow> []))"

definition unroutableAck :: "(int32 \<rightharpoonup> 'pp) \<Rightarrow> event list \<Rightarrow> bool" where
  "unroutableAck pps env = (\<exists>msg. EvSuccess msg True \<in> set env \<and> \<not> routable pps msg)"

text \<open>
  A round of waiting: a test \<open>t\<close> that has answered false, the receipt of one
  acknowledgement, and its routing.
\<close>

definition ackRound :: "action \<Rightarrow> ProducerMessage option \<times> bool \<Rightarrow> action list" where
  "ackRound t a = (case a of (msg, more') \<Rightarrow> t # ProducerSuccess msg more' # routed msg more')"

definition ackRounds :: "action \<Rightarrow> (ProducerMessage option \<times> bool) list \<Rightarrow> action list" where
  "ackRounds t acks = concat (map (ackRound t) acks)"

text \<open>
  What a run leaves as it was: the keys of the partition processors and the pending
  events that are not of the producer; it only takes events, performs only actions of
  \<^verbatim>\<open>processConsumerMessage\<close> and never ends in \<^verbatim>\<open>log.Fatal\<close>.
\<close>

definition frame :: "(int32 \<rightharpoonup> 'pp) \<Rightarrow> event list \<Rightarrow> 'pp run \<Rightarrow> bool" where
  "frame pps env r =
     (case r of (oc, pps', tr, env') \<Rightarrow>
        dom pps' = dom pps \<and> pendingOthers env' = pendingOthers env \<and>
        length env' \<le> length env \<and> set env' \<subseteq> set env \<and>
        (\<forall>a\<in>set tr. handlingAction a) \<and> (\<forall>f. oc \<noteq> Fatal f))"

text \<open>
  The shapes of a trace. \<open>commitTail\<close>: how the commit wait can end, after its rounds.
  \<open>submission outs sub\<close>: the trace \<open>sub\<close> of the submission loop sends a prefix of
  \<open>outs\<close> and otherwise only receives and routes acknowledgements. \<open>handledTrace\<close>: the
  trace from the call of \<^verbatim>\<open>pp.process\<close> on, where \<open>w\<close> is the number of sends the
  producer input accepts. \<open>intakeTail\<close>: how the readiness test can end, after its rounds.
\<close>

definition commitTail :: "int32 \<Rightarrow> outcome \<Rightarrow> action list \<Rightarrow> bool" where
  "commitTail k oc rest =
     (case oc of
        Returned \<Rightarrow> rest = [PP_isReadyToCommit k True, MarkOffsetsHook, PP_commit k]
      | Blocked \<Rightarrow> rest = [PP_isReadyToCommit k False]
      | Panicked pn \<Rightarrow>
          rest = [] \<or> (\<exists>msg b. rest = [PP_isReadyToCommit k False, ProducerSuccess msg b])
      | Fatal f \<Rightarrow> False)"

definition submission :: "ProducerMessage list \<Rightarrow> action list \<Rightarrow> bool" where
  "submission outs sub =
     (prefix (inputsOf sub) outs \<and> (\<forall>a\<in>set sub. (\<exists>p. a = ProducerInput p) \<or> ackAction a))"

definition handledTrace :: "int32 \<Rightarrow> nat \<Rightarrow> outcome \<Rightarrow> action list \<Rightarrow> bool" where
  "handledTrace k w oc rd =
     (\<exists>outs mc sub post.
        rd = PP_process k outs mc # sub @ post \<and>
        prefix (inputsOf sub) outs \<and>
        (\<forall>a\<in>set sub. (\<exists>p. a = ProducerInput p) \<or> ackAction a) \<and>
        (post = [] \<and> oc \<noteq> Returned \<and> (oc = Blocked \<longrightarrow> w < length outs) \<or>
         inputsOf sub = outs \<and>
         (\<exists>cw. post = PP_onProcessCompleted k # cw \<and>
            (if mc then
               \<exists>acks rest. cw = ackRounds (PP_isReadyToCommit k False) acks @ rest \<and>
                 commitTail k oc rest
             else cw = [] \<and> oc = Returned))))"

definition intakeTail :: "int32 \<Rightarrow> nat \<Rightarrow> outcome \<Rightarrow> action list \<Rightarrow> bool" where
  "intakeTail k w oc rest =
     (rest = [] \<and> oc = Panicked NilDereference \<or>
      rest = [PP_isReadyForMessage k False] \<and> oc = Blocked \<or>
      (\<exists>msg b pn. rest = [PP_isReadyForMessage k False, ProducerSuccess msg b] \<and>
         oc = Panicked pn) \<or>
      (\<exists>rd. rest = PP_isReadyForMessage k True # rd \<and> handledTrace k w oc rd))"

text \<open>The actions of the commit, and those of the readiness test and the processing.\<close>

fun commitAction :: "action \<Rightarrow> bool" where
  "commitAction (PP_isReadyToCommit k b) = True"
| "commitAction MarkOffsetsHook = True"
| "commitAction (PP_commit k) = True"
| "commitAction a = False"

fun intakeAction :: "action \<Rightarrow> bool" where
  "intakeAction (PP_isReadyForMessage k b) = True"
| "intakeAction (PP_process k outs mc) = True"
| "intakeAction a = False"

section \<open>A sample partition processor\<close>

text \<open>
  A sample partition processor, used to instantiate the theorems: its state is the number
  of acknowledgements outstanding. It accepts a message while fewer than two
  acknowledgements are outstanding, emits two output messages per input message, each
  referring back to the input message, asks for a commit, and is ready to commit when no
  acknowledgement is outstanding.
\<close>

definition sampleOutput :: "ConsumerMessage \<Rightarrow> string \<Rightarrow> ProducerMessage" where
  "sampleOutput m v =
     \<lparr> pm_Topic = ''out'', pm_Partition = cm_Partition m, pm_Value = v,
       Metadata = IncomingMessagePtr
         (Some \<lparr> im_Topic = cm_Topic m, im_Partition = sint (cm_Partition m),
                 im_Offset = cm_Offset m \<rparr>) \<rparr>"

definition sampleOps :: "nat pp_ops" where
  "sampleOps =
     \<lparr> isReadyForMessage = (\<lambda>m n. (n < 2, n)),
       process = (\<lambda>m n. (([sampleOutput m ''a'', sampleOutput m ''b''], True), n + 2)),
       onProcessCompleted = (\<lambda>n. n),
       isReadyToCommit = (\<lambda>n. (n = 0, n)),
       commit = (\<lambda>n. n),
       pp_onProducerAck = (\<lambda>pm n. n - 1),
       pp_onMarkOffsetsTick = (\<lambda>n. n),
       pp_onShutdown = (\<lambda>n. n) \<rparr>"

definition earlierMessage :: ConsumerMessage where
  "earlierMessage = \<lparr> cm_Topic = ''in'', cm_Partition = 0, cm_Offset = 6 \<rparr>"

definition sampleMessage :: ConsumerMessage where
  "sampleMessage = \<lparr> cm_Topic = ''in'', cm_Partition = 0, cm_Offset = 7 \<rparr>"

text \<open>
  A sample environment: two acknowledgements of the outputs of an earlier message are
  outstanding when the sample message arrives, and a tick of the commit ticker becomes
  pending while the message is handled.
\<close>

definition sampleEnv :: "event list" where
  "sampleEnv =
     [EvSuccess (Some (sampleOutput earlierMessage ''a'')) True, EvWritable, EvTick,
      EvSuccess (Some (sampleOutput sampleMessage ''a'')) True, EvWritable,
      EvSuccess (Some (sampleOutput sampleMessage ''b'')) True,
      EvSuccess (Some (sampleOutput earlierMessage ''b'')) True]"

text \<open>The trace of \<^verbatim>\<open>processConsumerMessage\<close> on the sample message in that environment.\<close>

definition sampleTrace :: "action list" where
  "sampleTrace =
     [PP_isReadyForMessage 0 False,
      ProducerSuccess (Some (sampleOutput earlierMessage ''a'')) True,
      PP_onProducerAck 0 (sampleOutput earlierMessage ''a''),
      PP_isReadyForMessage 0 True,
      PP_process 0 [sampleOutput sampleMessage ''a'', sampleOutput sampleMessage ''b''] True,
      ProducerInput (sampleOutput sampleMessage ''a''),
      ProducerSuccess (Some (sampleOutput sampleMessage ''a'')) True,
      PP_onProducerAck 0 (sampleOutput sampleMessage ''a''),
      ProducerInput (sampleOutput sampleMessage ''b''),
      PP_onProcessCompleted 0,
      PP_isReadyToCommit 0 False,
      ProducerSuccess (Some (sampleOutput sampleMessage ''b'')) True,
      PP_onProducerAck 0 (sampleOutput sampleMessage ''b''),
      PP_isReadyToCommit 0 False,
      ProducerSuccess (Some (sampleOutput earlierMessage ''b'')) True,
      PP_onProducerAck 0 (sampleOutput earlierMessage ''b''),
      PP_isReadyToCommit 0 True, MarkOffsetsHook, PP_commit 0]"



text \<open>A sample configuration: one container, one input topic, partition 0.\<close>

definition sampleSerde :: "string TopicSerde" where
  "sampleSerde =
     \<lparr> KeySerde = \<lparr> Serialize = map (\<lambda>c. of_nat (of_char c)), Deserialize = map (\<lambda>b. char_of (unat b)) \<rparr>,
       ValueSerde = \<lparr> Serialize = map (\<lambda>c. of_nat (of_char c)), Deserialize = map (\<lambda>b. char_of (unat b)) \<rparr> \<rparr>"

definition sampleConfig :: "string TopicProcessorConfig" where
  "sampleConfig =
     \<lparr> BrokerList = [''broker:9092''], InputTopics = [''in''],
       TopicSerdes = [''in'' \<mapsto> sampleSerde], ContainerCount = 1,
       PartitionToContainerID = [0 \<mapsto> 0] \<rparr>"

text \<open>
  An assignment of partitions to containers for the sample configuration, and the client
  library with a broker that can be reached and with one that cannot.
\<close>

definition samplePartitions :: "string TopicProcessorConfig \<Rightarrow> int \<Rightarrow> int list" where
  "samplePartitions cfg cid = (if PartitionToContainerID cfg 0 = Some cid then [0] else [])"

definition brokerUp :: broker where
  "brokerUp = \<lparr> NewClient = None, NewOffsetManagerFromClient = None, NewAsyncProducer = None \<rparr>"

definition brokerDown :: broker where
  "brokerDown =
     \<lparr> NewClient = Some ''no broker available'', NewOffsetManagerFromClient = None,
       NewAsyncProducer = None \<rparr>"

section \<open>Properties of runs\<close>

declare awaitCommit.simps [simp del] processConsumerMessage.simps [simp del]
  submitProducerMessages.simps [simp del]

lemma selectRunLoop_length:
  "selectRunLoop ticker env = Some (r, env') \<Longrightarrow> length env = Suc (length env')"
  by (induction ticker env arbitrary: r env' rule: selectRunLoop.induct)
     (auto split: option.splits if_splits)

subsection \<open>Basic facts\<close>

lemma callPP_None: "pps k = None \<Longrightarrow> callPP pps k f = Inl NilDereference"
  by (simp add: callPP_def)

lemma callPP_Some:
  "pps k = Some pp \<Longrightarrow> callPP pps k f = Inr (fst (f pp), pps(k \<mapsto> snd (f pp)))"
  by (simp add: callPP_def split: prod.splits)

lemma inputsOf_append [simp]: "inputsOf (xs @ ys) = inputsOf xs @ inputsOf ys"
  by (induction xs rule: inputsOf.induct) auto

lemma routed_ackAction: "a \<in> set (routed msg b) \<Longrightarrow> ackAction a"
  by (auto simp: routed_def split: if_splits option.splits metadata.splits)

lemma inputsOf_routed [simp]: "inputsOf (routed msg b) = []"
  by (auto simp: routed_def split: option.splits metadata.splits)

lemma onProducerAck_Inr:
  "onProducerAck ops pps msg b = Inr (pps', as) \<Longrightarrow>
     as = routed msg b \<and> dom pps' = dom pps \<and> (b \<longrightarrow> routable pps msg)"
  by (auto simp: onProducerAck_def routed_def routable_def callPP_def
      split: if_splits option.splits metadata.splits sum.splits prod.splits)


lemma onProducerAck_Inl:
  "onProducerAck ops pps msg b = Inl pn \<Longrightarrow> b \<and> \<not> routable pps msg"
  by (auto simp: onProducerAck_def routable_def callPP_def
      split: if_splits option.splits metadata.splits sum.splits prod.splits)

lemma routable_dom: "dom pps' = dom pps \<Longrightarrow> routable pps' msg = routable pps msg"
  by (auto simp: routable_def domIff dom_def set_eq_iff split: option.splits metadata.splits)

lemma recvSuccess_Some:
  "recvSuccess env = Some ((msg, b), env') \<Longrightarrow>
     pendingOthers env' = pendingOthers env \<and> EvSuccess msg b \<in> set env \<and> set env' \<subseteq> set env
     \<and> count_list env' EvWritable = count_list env EvWritable"
  by (induction env arbitrary: env' rule: recvSuccess.induct)
     (auto simp: pendingOthers_def split: option.splits)

lemma selectInputOrSuccess_Some:
  "selectInputOrSuccess env = Some (sel, env') \<Longrightarrow>
     pendingOthers env' = pendingOthers env \<and> set env' \<subseteq> set env \<and>
     (case sel of SendReady \<Rightarrow> Suc (count_list env' EvWritable) = count_list env EvWritable
      | Received msg b \<Rightarrow> EvSuccess msg b \<in> set env \<and>
           count_list env' EvWritable = count_list env EvWritable)"
  by (induction env arbitrary: env' rule: selectInputOrSuccess.induct)
     (auto simp: pendingOthers_def split: option.splits selected.splits)

lemma selectInputOrSuccess_None:
  "selectInputOrSuccess env = None \<Longrightarrow> count_list env EvWritable = 0"
  by (induction env rule: selectInputOrSuccess.induct) (auto split: option.splits)

subsection \<open>Case rules for the loops\<close>

lemma run_cases: obtains oc pps tr env where "(r :: 'pp run) = (oc, pps, tr, env)"
  by (cases r) auto

lemma submitProducerMessages_cases [consumes 1, case_names Done Block Send AckPanic Ack]:
  assumes "submitProducerMessages ops pps ps env = R"
  obtains
    "ps = []" "R = (Returned, pps, [], env)"
  | p ps' where "ps = p # ps'" "selectInputOrSuccess env = None" "R = (Blocked, pps, [], env)"
  | p ps' env1 where "ps = p # ps'" "selectInputOrSuccess env = Some (SendReady, env1)"
      "R = emit [ProducerInput p] (submitProducerMessages ops pps ps' env1)"
  | p ps' msg b env1 pn where "ps = p # ps'"
      "selectInputOrSuccess env = Some (Received msg b, env1)"
      "onProducerAck ops pps msg b = Inl pn"
      "R = (Panicked pn, pps, [ProducerSuccess msg b], env1)"
  | p ps' msg b env1 pps1 where "ps = p # ps'"
      "selectInputOrSuccess env = Some (Received msg b, env1)"
      "onProducerAck ops pps msg b = Inr (pps1, routed msg b)"
      "R = emit (ProducerSuccess msg b # routed msg b) (submitProducerMessages ops pps1 ps env1)"
proof (cases ps)
  case Nil
  with assms that(1) show ?thesis by (simp add: submitProducerMessages.simps)
next
  case (Cons p ps')
  show ?thesis
  proof (cases "selectInputOrSuccess env")
    case None
    with assms Cons that(2) show ?thesis by (simp add: submitProducerMessages.simps)
  next
    case (Some a)
    then obtain sel env1 where sel: "selectInputOrSuccess env = Some (sel, env1)"
      by (cases a) auto
    show ?thesis
    proof (cases sel)
      case SendReady
      with assms Cons sel that(3) show ?thesis by (simp add: submitProducerMessages.simps)
    next
      case (Received msg b)
      show ?thesis
      proof (cases "onProducerAck ops pps msg b")
        case (Inl pn)
        with assms Cons sel Received that(4) show ?thesis
          by (simp add: submitProducerMessages.simps)
      next
        case (Inr q)
        then obtain pps1 as where q: "onProducerAck ops pps msg b = Inr (pps1, as)"
          by (cases q) auto
        with onProducerAck_Inr[OF q] assms Cons sel Received that(5) show ?thesis
          by (simp add: submitProducerMessages.simps)
      qed
    qed
  qed
qed

lemma awaitCommit_cases [consumes 1, case_names Nil Ready Block AckPanic Ack]:
  assumes "awaitCommit ops pps k env = R"
  obtains
    "pps k = None" "R = (Panicked NilDereference, pps, [], env)"
  | pp pp1 where "pps k = Some pp" "isReadyToCommit ops pp = (True, pp1)"
      "R = (Returned, pps(k \<mapsto> commit ops pp1),
            [PP_isReadyToCommit k True, MarkOffsetsHook, PP_commit k], env)"
  | pp pp1 where "pps k = Some pp" "isReadyToCommit ops pp = (False, pp1)"
      "recvSuccess env = None"
      "R = (Blocked, pps(k \<mapsto> pp1), [PP_isReadyToCommit k False], env)"
  | pp pp1 msg b env1 pn where "pps k = Some pp" "isReadyToCommit ops pp = (False, pp1)"
      "recvSuccess env = Some ((msg, b), env1)"
      "onProducerAck ops (pps(k \<mapsto> pp1)) msg b = Inl pn"
      "R = (Panicked pn, pps(k \<mapsto> pp1),
            [PP_isReadyToCommit k False, ProducerSuccess msg b], env1)"
  | pp pp1 msg b env1 pps2 where "pps k = Some pp" "isReadyToCommit ops pp = (False, pp1)"
      "recvSuccess env = Some ((msg, b), env1)"
      "onProducerAck ops (pps(k \<mapsto> pp1)) msg b = Inr (pps2, routed msg b)"
      "R = emit (ackRound (PP_isReadyToCommit k False) (msg, b)) (awaitCommit ops pps2 k env1)"
proof (cases "pps k")
  case None
  with assms that(1) show ?thesis
    by (subst (asm) awaitCommit.simps) (simp add: callPP_None)
next
  case (Some pp)
  obtain ready pp1 where rd: "isReadyToCommit ops pp = (ready, pp1)"
    by (cases "isReadyToCommit ops pp") auto
  note c = callPP_Some[of pps k pp "isReadyToCommit ops", OF Some]
  show ?thesis
  proof (cases ready)
    case True
    with assms Some rd c that(2)[OF Some] show ?thesis
      by (subst (asm) awaitCommit.simps) (simp add: callPP_def)
  next
    case False
    show ?thesis
    proof (cases "recvSuccess env")
      case None
      with assms Some rd c False that(3)[OF Some] show ?thesis
        by (subst (asm) awaitCommit.simps) simp
    next
      case Some2: (Some a)
      then obtain msg b env1 where rs: "recvSuccess env = Some ((msg, b), env1)"
        by (cases a) auto
      show ?thesis
      proof (cases "onProducerAck ops (pps(k \<mapsto> pp1)) msg b")
        case (Inl pn)
        with assms Some rd c False rs that(4)[OF Some] show ?thesis
          by (subst (asm) awaitCommit.simps) simp
      next
        case (Inr q)
        then obtain pps2 as where q: "onProducerAck ops (pps(k \<mapsto> pp1)) msg b = Inr (pps2, as)"
          by (cases q) auto
        with onProducerAck_Inr[OF q] assms Some rd c False rs that(5)[OF Some] show ?thesis
          by (subst (asm) awaitCommit.simps) (simp add: ackRound_def)
      qed
    qed
  qed
qed

lemma processConsumerMessage_cases [consumes 1, case_names Nil Ready Block AckPanic Ack]:
  assumes "processConsumerMessage ops pps m env = R"
  obtains
    "pps (cm_Partition m) = None" "R = (Panicked NilDereference, pps, [], env)"
  | pp pp1 where "pps (cm_Partition m) = Some pp" "isReadyForMessage ops m pp = (True, pp1)"
      "R = emit [PP_isReadyForMessage (cm_Partition m) True]
             (processReadyMessage ops (pps(cm_Partition m \<mapsto> pp1)) m env)"
  | pp pp1 where "pps (cm_Partition m) = Some pp" "isReadyForMessage ops m pp = (False, pp1)"
      "recvSuccess env = None"
      "R = (Blocked, pps(cm_Partition m \<mapsto> pp1), [PP_isReadyForMessage (cm_Partition m) False], env)"
  | pp pp1 msg b env1 pn where "pps (cm_Partition m) = Some pp"
      "isReadyForMessage ops m pp = (False, pp1)"
      "recvSuccess env = Some ((msg, b), env1)"
      "onProducerAck ops (pps(cm_Partition m \<mapsto> pp1)) msg b = Inl pn"
      "R = (Panicked pn, pps(cm_Partition m \<mapsto> pp1),
            [PP_isReadyForMessage (cm_Partition m) False, ProducerSuccess msg b], env1)"
  | pp pp1 msg b env1 pps2 where "pps (cm_Partition m) = Some pp"
      "isReadyForMessage ops m pp = (False, pp1)"
      "recvSuccess env = Some ((msg, b), env1)"
      "onProducerAck ops (pps(cm_Partition m \<mapsto> pp1)) msg b = Inr (pps2, routed msg b)"
      "R = emit (ackRound (PP_isReadyForMessage (cm_Partition m) False) (msg, b))
             (processConsumerMessage ops pps2 m env1)"
proof (cases "pps (cm_Partition m)")
  case None
  with assms that(1) show ?thesis
    by (subst (asm) processConsumerMessage.simps) (simp add: callPP_None Let_def)
next
  case (Some pp)
  obtain ready pp1 where rd: "isReadyForMessage ops m pp = (ready, pp1)"
    by (cases "isReadyForMessage ops m pp") auto
  note c = callPP_Some[of pps "cm_Partition m" pp "isReadyForMessage ops m", OF Some]
  show ?thesis
  proof (cases ready)
    case True
    with assms Some rd c that(2)[OF Some] show ?thesis
      by (subst (asm) processConsumerMessage.simps) (simp add: Let_def)
  next
    case False
    show ?thesis
    proof (cases "recvSuccess env")
      case None
      with assms Some rd c False that(3)[OF Some] show ?thesis
        by (subst (asm) processConsumerMessage.simps) (simp add: Let_def)
    next
      case Some2: (Some a)
      then obtain msg b env1 where rs: "recvSuccess env = Some ((msg, b), env1)"
        by (cases a) auto
      show ?thesis
      proof (cases "onProducerAck ops (pps(cm_Partition m \<mapsto> pp1)) msg b")
        case (Inl pn)
        with assms Some rd c False rs that(4)[OF Some] show ?thesis
          by (subst (asm) processConsumerMessage.simps) (simp add: Let_def)
      next
        case (Inr q)
        then obtain pps2 as where
          q: "onProducerAck ops (pps(cm_Partition m \<mapsto> pp1)) msg b = Inr (pps2, as)"
          by (cases q) auto
        with onProducerAck_Inr[OF q] assms Some rd c False rs that(5)[OF Some] show ?thesis
          by (subst (asm) processConsumerMessage.simps) (simp add: ackRound_def Let_def)
      qed
    qed
  qed
qed

subsection \<open>What a run leaves unchanged\<close>

lemma emit_simp [simp]: "emit as (oc, pps, tr, env) = (oc, pps, as @ tr, env)"
  by (simp add: emit_def)

lemma routed_handling: "a \<in> set (routed msg b) \<Longrightarrow> handlingAction a"
  by (auto simp: routed_def split: if_splits option.splits metadata.splits)

lemma unroutableAck_mono:
  "unroutableAck pps' env' \<Longrightarrow> dom pps' = dom pps \<Longrightarrow> set env' \<subseteq> set env \<Longrightarrow> unroutableAck pps env"
  unfolding unroutableAck_def using routable_dom[of pps' pps] by blast

lemma frame_emit:
  "frame pps1 env1 r \<Longrightarrow> dom pps1 = dom pps \<Longrightarrow> pendingOthers env1 = pendingOthers env \<Longrightarrow>
   length env1 \<le> length env \<Longrightarrow> set env1 \<subseteq> set env \<Longrightarrow> \<forall>a\<in>set as. handlingAction a \<Longrightarrow>
   frame pps env (emit as r)"
  by (cases r) (auto simp: frame_def)

lemma submitProducerMessages_frame:
  "frame pps env (submitProducerMessages ops pps ps env)"
proof (induction env arbitrary: pps ps rule: length_induct)
  case (1 env)
  obtain R where R: "submitProducerMessages ops pps ps env = R" by simp
  from R have "frame pps env R"
  proof (cases rule: submitProducerMessages_cases)
    case Done
    then show ?thesis by (simp add: frame_def)
  next
    case (Block p ps')
    then show ?thesis by (simp add: frame_def)
  next
    case (Send p ps' env1)
    note s = selectInputOrSuccess_Some[OF Send(2)] selectInputOrSuccess_length[OF Send(2)]
    from s have ih: "frame pps env1 (submitProducerMessages ops pps ps' env1)"
      using "1.IH" by simp
    show ?thesis unfolding Send(3)
      by (rule frame_emit[OF ih]) (use s in auto)
  next
    case (AckPanic p ps' msg b env1 pn)
    note s = selectInputOrSuccess_Some[OF AckPanic(2)] selectInputOrSuccess_length[OF AckPanic(2)]
    with AckPanic show ?thesis by (simp add: frame_def)
  next
    case (Ack p ps' msg b env1 pps1)
    note s = selectInputOrSuccess_Some[OF Ack(2)] selectInputOrSuccess_length[OF Ack(2)]
    note a = onProducerAck_Inr[OF Ack(3)]
    from s have ih: "frame pps1 env1 (submitProducerMessages ops pps1 ps env1)"
      using "1.IH" by simp
    show ?thesis unfolding Ack(4)
      by (rule frame_emit[OF ih]) (use s a in \<open>auto dest: routed_handling\<close>)
  qed
  with R show ?case by simp
qed

lemma awaitCommit_frame: "frame pps env (awaitCommit ops pps k env)"
proof (induction env arbitrary: pps rule: length_induct)
  case (1 env)
  obtain R where R: "awaitCommit ops pps k env = R" by simp
  from R have "frame pps env R"
  proof (cases rule: awaitCommit_cases)
    case Nil
    then show ?thesis by (simp add: frame_def)
  next
    case (Ready pp pp1)
    then show ?thesis by (auto simp: frame_def)
  next
    case (Block pp pp1)
    then show ?thesis by (auto simp: frame_def)
  next
    case (AckPanic pp pp1 msg b env1 pn)
    note s = recvSuccess_Some[OF AckPanic(3)] recvSuccess_length[OF AckPanic(3)]
    with AckPanic show ?thesis by (auto simp: frame_def)
  next
    case (Ack pp pp1 msg b env1 pps2)
    note s = recvSuccess_Some[OF Ack(3)] recvSuccess_length[OF Ack(3)]
    note a = onProducerAck_Inr[OF Ack(4)]
    from s have ih: "frame pps2 env1 (awaitCommit ops pps2 k env1)"
      using "1.IH" by simp
    show ?thesis unfolding Ack(5)
      by (rule frame_emit[OF ih])
         (use s a Ack(1) in \<open>auto simp: ackRound_def dest: routed_handling\<close>)
  qed
  with R show ?case by simp
qed

lemma emit_emit [simp]: "emit as (emit bs r) = emit (as @ bs) r"
  by (cases r) simp

lemma processReadyMessage_cases [consumes 1, case_names Nil SubmitStop NoCommit Commit]:
  assumes "processReadyMessage ops pps m env = R"
  obtains
    "pps (cm_Partition m) = None" "R = (Panicked NilDereference, pps, [], env)"
  | pp outs mc pp1 oc1 pps2 sub env2 where
      "pps (cm_Partition m) = Some pp" "process ops m pp = ((outs, mc), pp1)"
      "submitProducerMessages ops (pps(cm_Partition m \<mapsto> pp1)) outs env = (oc1, pps2, sub, env2)"
      "oc1 \<noteq> Returned"
      "R = (oc1, pps2, PP_process (cm_Partition m) outs mc # sub, env2)"
  | pp outs pp1 pps2 sub env2 pp2 where
      "pps (cm_Partition m) = Some pp" "process ops m pp = ((outs, False), pp1)"
      "submitProducerMessages ops (pps(cm_Partition m \<mapsto> pp1)) outs env = (Returned, pps2, sub, env2)"
      "pps2 (cm_Partition m) = Some pp2"
      "R = (Returned, pps2(cm_Partition m \<mapsto> onProcessCompleted ops pp2),
            PP_process (cm_Partition m) outs False # sub @ [PP_onProcessCompleted (cm_Partition m)], env2)"
  | pp outs pp1 pps2 sub env2 pp2 where
      "pps (cm_Partition m) = Some pp" "process ops m pp = ((outs, True), pp1)"
      "submitProducerMessages ops (pps(cm_Partition m \<mapsto> pp1)) outs env = (Returned, pps2, sub, env2)"
      "pps2 (cm_Partition m) = Some pp2"
      "R = emit (PP_process (cm_Partition m) outs True # sub @ [PP_onProcessCompleted (cm_Partition m)])
             (awaitCommit ops (pps2(cm_Partition m \<mapsto> onProcessCompleted ops pp2)) (cm_Partition m) env2)"
proof (cases "pps (cm_Partition m)")
  case None
  with assms that(1) show ?thesis
    by (simp add: processReadyMessage_def callPP_None Let_def)
next
  case (Some pp)
  let ?k = "cm_Partition m"
  obtain outs mc pp1 where pr: "process ops m pp = ((outs, mc), pp1)"
    by (metis prod.exhaust)
  note c = callPP_Some[of pps ?k pp "process ops m", OF Some]
  obtain oc1 pps2 sub env2 where
    sb: "submitProducerMessages ops (pps(?k \<mapsto> pp1)) outs env = (oc1, pps2, sub, env2)"
    by (rule run_cases)
  from submitProducerMessages_frame[of "pps(?k \<mapsto> pp1)" env ops outs] sb
  have d: "dom pps2 = dom (pps(?k \<mapsto> pp1))" by (simp add: frame_def)
  then obtain pp2 where pp2: "pps2 ?k = Some pp2" by (auto simp: domIff set_eq_iff)
  note c2 = callPP_Some[of pps2 ?k pp2 "\<lambda>pp. ((), onProcessCompleted ops pp)", OF pp2]
  show ?thesis
  proof (cases "oc1 = Returned")
    case False
    with assms Some pr c sb that(2)[OF Some pr sb] show ?thesis
      by (simp add: processReadyMessage_def Let_def andThen_def)
  next
    case True
    show ?thesis
    proof (cases mc)
      case False
      from pr sb True False have "process ops m pp = ((outs, False), pp1)"
        "submitProducerMessages ops (pps(?k \<mapsto> pp1)) outs env = (Returned, pps2, sub, env2)"
        by simp_all
      note t = that(3)[OF Some this pp2]
      from assms Some pr c sb True False pp2 c2 show ?thesis
        by (intro t) (simp add: processReadyMessage_def Let_def andThen_def)
    next
      case mcT: True
      from pr sb True mcT have "process ops m pp = ((outs, True), pp1)"
        "submitProducerMessages ops (pps(?k \<mapsto> pp1)) outs env = (Returned, pps2, sub, env2)"
        by simp_all
      note t = that(4)[OF Some this pp2]
      from assms Some pr c sb True mcT pp2 c2 show ?thesis
        by (intro t) (simp add: processReadyMessage_def Let_def andThen_def)
    qed
  qed
qed

lemma processReadyMessage_frame: "frame pps env (processReadyMessage ops pps m env)"
proof -
  let ?k = "cm_Partition m"
  obtain R where R: "processReadyMessage ops pps m env = R" by simp
  from R have "frame pps env R"
  proof (cases rule: processReadyMessage_cases)
    case Nil
    then show ?thesis by (simp add: frame_def)
  next
    case (SubmitStop pp outs mc pp1 oc1 pps2 sub env2)
    from submitProducerMessages_frame[of "pps(?k \<mapsto> pp1)" env ops outs] SubmitStop
    show ?thesis by (auto simp: frame_def)
  next
    case (NoCommit pp outs pp1 pps2 sub env2 pp2)
    from submitProducerMessages_frame[of "pps(?k \<mapsto> pp1)" env ops outs] NoCommit
    show ?thesis by (auto simp: frame_def)
  next
    case (Commit pp outs pp1 pps2 sub env2 pp2)
    from submitProducerMessages_frame[of "pps(?k \<mapsto> pp1)" env ops outs] Commit
    have f1: "dom pps2 = dom pps" "pendingOthers env2 = pendingOthers env"
      "length env2 \<le> length env" "set env2 \<subseteq> set env" "\<forall>a\<in>set sub. handlingAction a"
      by (auto simp: frame_def)
    have f2: "frame (pps2(?k \<mapsto> onProcessCompleted ops pp2)) env2
        (awaitCommit ops (pps2(?k \<mapsto> onProcessCompleted ops pp2)) ?k env2)"
      by (rule awaitCommit_frame)
    show ?thesis unfolding Commit(5)
      by (rule frame_emit[OF f2]) (use f1 Commit(4) in auto)
  qed
  with R show ?thesis by simp
qed

lemma processConsumerMessage_frame: "frame pps env (processConsumerMessage ops pps m env)"
proof (induction env arbitrary: pps rule: length_induct)
  case (1 env)
  let ?k = "cm_Partition m"
  obtain R where R: "processConsumerMessage ops pps m env = R" by simp
  from R have "frame pps env R"
  proof (cases rule: processConsumerMessage_cases)
    case Nil
    then show ?thesis by (simp add: frame_def)
  next
    case (Ready pp pp1)
    have f: "frame (pps(?k \<mapsto> pp1)) env (processReadyMessage ops (pps(?k \<mapsto> pp1)) m env)"
      by (rule processReadyMessage_frame)
    show ?thesis unfolding Ready(3)
      by (rule frame_emit[OF f]) (use Ready(1) in auto)
  next
    case (Block pp pp1)
    then show ?thesis by (auto simp: frame_def)
  next
    case (AckPanic pp pp1 msg b env1 pn)
    note s = recvSuccess_Some[OF AckPanic(3)] recvSuccess_length[OF AckPanic(3)]
    with AckPanic show ?thesis by (auto simp: frame_def)
  next
    case (Ack pp pp1 msg b env1 pps2)
    note s = recvSuccess_Some[OF Ack(3)] recvSuccess_length[OF Ack(3)]
    note a = onProducerAck_Inr[OF Ack(4)]
    from s have ih: "frame pps2 env1 (processConsumerMessage ops pps2 m env1)"
      using "1.IH" by simp
    show ?thesis unfolding Ack(5)
      by (rule frame_emit[OF ih])
         (use s a Ack(1) in \<open>auto simp: ackRound_def dest: routed_handling\<close>)
  qed
  with R show ?case by simp
qed

subsection \<open>The coordinator loop\<close>

lemma processConsumerMessage_length:
  "processConsumerMessage ops pps m env = (oc, pps', tr, env') \<Longrightarrow> length env' \<le> length env"
  using processConsumerMessage_frame[of pps env ops m] by (simp add: frame_def)

text \<open>
  The loop of \<^verbatim>\<open>runLoop\<close>, lines 129 to 142. \<open>ticker\<close> says whether offsets are marked
  automatically, that is, whether a ticker was created.
\<close>

function runLoop ::
  "'pp pp_ops \<Rightarrow> bool \<Rightarrow> string option \<Rightarrow> string option \<Rightarrow> (int32 \<rightharpoonup> 'pp) \<Rightarrow> event list \<Rightarrow>
     'pp run" where
  "runLoop ops ticker producerClose clientClose pps env =
     (case selectRunLoop ticker env of
        None \<Rightarrow> (Blocked, pps, [], env)
      | Some (GotConsumer consumerMessage, env1) \<Rightarrow>
          (case processConsumerMessage ops pps consumerMessage env1 of
             (oc, pps2, tr, env2) \<Rightarrow>
               if oc = Returned then
                 emit (ConsumerReceived consumerMessage # tr)
                   (runLoop ops ticker producerClose clientClose pps2 env2)
               else (oc, pps2, ConsumerReceived consumerMessage # tr, env2))
      | Some (GotSuccess msg more', env1) \<Rightarrow>
          (case onProducerAck ops pps msg more' of
             Inl pn \<Rightarrow> (Panicked pn, pps, [ProducerSuccess msg more'], env1)
           | Inr (pps2, as) \<Rightarrow>
               emit (ProducerSuccess msg more' # as)
                 (runLoop ops ticker producerClose clientClose pps2 env1))
      | Some (GotTick, env1) \<Rightarrow>
          (case onMarkOffsetsTick ops pps of
             (pps2, as) \<Rightarrow>
               emit (TickReceived # as)
                 (runLoop ops ticker producerClose clientClose pps2 env1))
      | Some (GotShutdown, env1) \<Rightarrow>
          (case onShutdown ops ticker producerClose clientClose pps of
             (oc, pps2, as) \<Rightarrow>
               (oc, pps2, [ShutdownReceived, CloseConsumerSyncChan] @ as, env1)))"
  by pat_completeness auto
termination
  by (relation "measure (\<lambda>(ops, ticker, pc, cc, pps, env). length env)")
     (auto dest!: selectRunLoop_length processConsumerMessage_length[OF sym])

declare runLoop.simps [simp del]

subsection \<open>The shape of a trace\<close>

lemma submitProducerMessages_trace:
  "submitProducerMessages ops pps ps env = (oc, pps', tr, env') \<Longrightarrow>
     prefix (inputsOf tr) ps \<and> (oc = Returned \<longleftrightarrow> inputsOf tr = ps) \<and>
     (\<forall>a\<in>set tr. (\<exists>p. a = ProducerInput p) \<or> ackAction a) \<and>
     (oc = Blocked \<longrightarrow> count_list env EvWritable < length ps) \<and>
     (\<forall>pn. oc = Panicked pn \<longrightarrow> unroutableAck pps env)"
proof (induction env arbitrary: pps ps oc pps' tr env' rule: length_induct)
  case (1 env)
  from "1.prems" show ?case
  proof (cases rule: submitProducerMessages_cases)
    case Done
    then show ?thesis by simp
  next
    case (Block p ps')
    then show ?thesis by (simp add: selectInputOrSuccess_None)
  next
    case (Send p ps' env1)
    note s = selectInputOrSuccess_Some[OF Send(2)] selectInputOrSuccess_length[OF Send(2)]
    obtain oc2 pps2 tr2 env2 where
      r2: "submitProducerMessages ops pps ps' env1 = (oc2, pps2, tr2, env2)"
      by (rule run_cases)
    from s have "length env1 < length env" by simp
    from "1.IH"[rule_format, OF this r2] have ih:
      "prefix (inputsOf tr2) ps'" "oc2 = Returned \<longleftrightarrow> inputsOf tr2 = ps'"
      "\<forall>a\<in>set tr2. (\<exists>p. a = ProducerInput p) \<or> ackAction a"
      "oc2 = Blocked \<longrightarrow> count_list env1 EvWritable < length ps'"
      "\<forall>pn. oc2 = Panicked pn \<longrightarrow> unroutableAck pps env1"
      by blast+
    from Send(3) r2 have eq: "oc = oc2" "tr = ProducerInput p # tr2" by simp_all
    have "prefix (inputsOf tr) ps" using ih(1) eq Send(1) by simp
    moreover have "oc = Returned \<longleftrightarrow> inputsOf tr = ps" using ih(2) eq Send(1) by simp
    moreover have "\<forall>a\<in>set tr. (\<exists>p. a = ProducerInput p) \<or> ackAction a"
      using ih(3) eq by simp
    moreover have "oc = Blocked \<longrightarrow> count_list env EvWritable < length ps"
      using ih(4) eq Send(1) s by auto
    moreover have "\<forall>pn. oc = Panicked pn \<longrightarrow> unroutableAck pps env"
      using ih(5) eq s unroutableAck_mono[of pps env1 pps env] by auto
    ultimately show ?thesis by blast
  next
    case (AckPanic p ps' msg b env1 pn)
    note s = selectInputOrSuccess_Some[OF AckPanic(2)]
    from onProducerAck_Inl[OF AckPanic(3)] s have "unroutableAck pps env"
      by (auto simp: unroutableAck_def)
    with AckPanic show ?thesis by simp
  next
    case (Ack p ps' msg b env1 pps1)
    note s = selectInputOrSuccess_Some[OF Ack(2)] selectInputOrSuccess_length[OF Ack(2)]
    note a = onProducerAck_Inr[OF Ack(3)]
    obtain oc2 pps2 tr2 env2 where
      r2: "submitProducerMessages ops pps1 ps env1 = (oc2, pps2, tr2, env2)"
      by (rule run_cases)
    from s have "length env1 < length env" by simp
    from "1.IH"[rule_format, OF this r2] have ih:
      "prefix (inputsOf tr2) ps" "oc2 = Returned \<longleftrightarrow> inputsOf tr2 = ps"
      "\<forall>a\<in>set tr2. (\<exists>p. a = ProducerInput p) \<or> ackAction a"
      "oc2 = Blocked \<longrightarrow> count_list env1 EvWritable < length ps"
      "\<forall>pn. oc2 = Panicked pn \<longrightarrow> unroutableAck pps1 env1"
      by blast+
    from Ack(4) r2 have eq: "oc = oc2" "tr = ProducerSuccess msg b # routed msg b @ tr2"
      by simp_all
    have "prefix (inputsOf tr) ps" using ih(1) eq by simp
    moreover have "oc = Returned \<longleftrightarrow> inputsOf tr = ps" using ih(2) eq by simp
    moreover have "\<forall>a\<in>set tr. (\<exists>p. a = ProducerInput p) \<or> ackAction a"
      using ih(3) eq by (auto dest: routed_ackAction)
    moreover have "oc = Blocked \<longrightarrow> count_list env EvWritable < length ps"
      using ih(4) eq s by auto
    moreover have "\<forall>pn. oc = Panicked pn \<longrightarrow> unroutableAck pps env"
      using ih(5) eq s a unroutableAck_mono[of pps1 env1 pps env] by auto
    ultimately show ?thesis by blast
  qed
qed

lemma ackRounds_Nil [simp]: "ackRounds t [] = []"
  by (simp add: ackRounds_def)

lemma ackRounds_Cons: "ackRounds t (a # acks) = ackRound t a @ ackRounds t acks"
  by (simp add: ackRounds_def)

lemma awaitCommit_trace:
  "awaitCommit ops pps k env = (oc, pps', tr, env') \<Longrightarrow>
     (\<exists>acks rest. tr = ackRounds (PP_isReadyToCommit k False) acks @ rest \<and> commitTail k oc rest)
     \<and> (\<forall>pn. oc = Panicked pn \<longrightarrow> pps k = None \<or> unroutableAck pps env)"
proof (induction env arbitrary: pps oc pps' tr env' rule: length_induct)
  case (1 env)
  let ?t = "PP_isReadyToCommit k False"
  from "1.prems" show ?case
  proof (cases rule: awaitCommit_cases)
    case Nil
    then have "tr = ackRounds ?t [] @ []" "commitTail k oc []" by (simp_all add: commitTail_def)
    with Nil show ?thesis by blast
  next
    case (Ready pp pp1)
    then have "tr = ackRounds ?t [] @ tr" "commitTail k oc tr" by (simp_all add: commitTail_def)
    with Ready show ?thesis by blast
  next
    case (Block pp pp1)
    then have "tr = ackRounds ?t [] @ tr" "commitTail k oc tr" by (simp_all add: commitTail_def)
    with Block show ?thesis by blast
  next
    case (AckPanic pp pp1 msg b env1 pn)
    note s = recvSuccess_Some[OF AckPanic(3)]
    from AckPanic have "tr = ackRounds ?t [] @ tr" "commitTail k oc tr"
      by (simp_all add: commitTail_def)
    moreover from onProducerAck_Inl[OF AckPanic(4)] s AckPanic(1)
    have "unroutableAck pps env"
      using routable_dom[of "pps(k \<mapsto> pp1)" pps msg] by (auto simp: unroutableAck_def)
    ultimately show ?thesis by blast
  next
    case (Ack pp pp1 msg b env1 pps2)
    note s = recvSuccess_Some[OF Ack(3)] recvSuccess_length[OF Ack(3)]
    note a = onProducerAck_Inr[OF Ack(4)]
    obtain oc2 pps3 tr2 env2 where r2: "awaitCommit ops pps2 k env1 = (oc2, pps3, tr2, env2)"
      by (rule run_cases)
    from s have "length env1 < length env" by simp
    from "1.IH"[rule_format, OF this r2] obtain acks rest where ih:
      "tr2 = ackRounds ?t acks @ rest" "commitTail k oc2 rest"
      "\<forall>pn. oc2 = Panicked pn \<longrightarrow> pps2 k = None \<or> unroutableAck pps2 env1"
      by blast
    from Ack(5) r2 have eq: "oc = oc2" "tr = ackRound ?t (msg, b) @ tr2" by simp_all
    have d: "dom pps2 = dom pps" using a Ack(1) by auto
    have "tr = ackRounds ?t ((msg, b) # acks) @ rest" using eq ih(1) by (simp add: ackRounds_Cons)
    moreover have "commitTail k oc rest" using ih(2) eq by simp
    moreover have "\<forall>pn. oc = Panicked pn \<longrightarrow> pps k = None \<or> unroutableAck pps env"
    proof (intro allI impI)
      fix pn assume "oc = Panicked pn"
      with ih(3) eq have "pps2 k = None \<or> unroutableAck pps2 env1" by blast
      moreover have "pps2 k \<noteq> None" using d Ack(1) by (auto simp: domIff)
      ultimately have "unroutableAck pps2 env1" by simp
      from unroutableAck_mono[OF this d] s show "pps k = None \<or> unroutableAck pps env" by simp
    qed
    ultimately show ?thesis by blast
  qed
qed

lemma processReadyMessage_trace:
  assumes run: "processReadyMessage ops pps m env = (oc, pps', tr, env')"
    and key: "pps (cm_Partition m) \<noteq> None"
  shows "handledTrace (cm_Partition m) (count_list env EvWritable) oc tr \<and>
         (\<forall>pn. oc = Panicked pn \<longrightarrow> unroutableAck pps env)"
proof -
  let ?k = "cm_Partition m"
  from run show ?thesis
  proof (cases rule: processReadyMessage_cases)
    case Nil
    with key show ?thesis by simp
  next
    case (SubmitStop pp outs mc pp1 oc1 pps2 sub env2)
    note t = submitProducerMessages_trace[OF SubmitStop(3)]
    from SubmitStop(5) have eq: "oc = oc1" "tr = PP_process ?k outs mc # sub @ []" by simp_all
    have "handledTrace ?k (count_list env EvWritable) oc tr"
      unfolding handledTrace_def
      apply (rule exI[of _ outs], rule exI[of _ mc], rule exI[of _ sub], rule exI[of _ "[]"])
      using t eq SubmitStop(4) by simp
    moreover have "\<forall>pn. oc = Panicked pn \<longrightarrow> unroutableAck pps env"
      using t eq unroutableAck_mono[of "pps(?k \<mapsto> pp1)" env pps env] SubmitStop(1) by auto
    ultimately show ?thesis by simp
  next
    case (NoCommit pp outs pp1 pps2 sub env2 pp2)
    note t = submitProducerMessages_trace[OF NoCommit(3)]
    from NoCommit(5) have eq: "oc = Returned"
      "tr = PP_process ?k outs False # sub @ (PP_onProcessCompleted ?k # [])" by simp_all
    have "handledTrace ?k (count_list env EvWritable) oc tr"
      unfolding handledTrace_def
      apply (rule exI[of _ outs], rule exI[of _ False], rule exI[of _ sub],
             rule exI[of _ "[PP_onProcessCompleted ?k]"])
      using t eq by simp
    with eq show ?thesis by simp
  next
    case (Commit pp outs pp1 pps2 sub env2 pp2)
    note t = submitProducerMessages_trace[OF Commit(3)]
    let ?pps3 = "pps2(?k \<mapsto> onProcessCompleted ops pp2)"
    obtain oc3 pps4 cw env4 where ac: "awaitCommit ops ?pps3 ?k env2 = (oc3, pps4, cw, env4)"
      by (rule run_cases)
    from Commit(5) ac have eq: "oc = oc3"
      "tr = PP_process ?k outs True # sub @ (PP_onProcessCompleted ?k # cw)" by simp_all
    from awaitCommit_trace[OF ac] obtain acks rest where c:
      "cw = ackRounds (PP_isReadyToCommit ?k False) acks @ rest" "commitTail ?k oc3 rest"
      "\<forall>pn. oc3 = Panicked pn \<longrightarrow> ?pps3 ?k = None \<or> unroutableAck ?pps3 env2"
      by blast
    have "handledTrace ?k (count_list env EvWritable) oc tr"
      unfolding handledTrace_def
      apply (rule exI[of _ outs], rule exI[of _ True], rule exI[of _ sub],
             rule exI[of _ "PP_onProcessCompleted ?k # cw"])
      using t eq c by auto
    moreover have "\<forall>pn. oc = Panicked pn \<longrightarrow> unroutableAck pps env"
    proof (intro allI impI)
      fix pn assume "oc = Panicked pn"
      with c(3) eq have u: "unroutableAck ?pps3 env2" by auto
      from submitProducerMessages_frame[of "pps(?k \<mapsto> pp1)" env ops outs] Commit(3)
      have f: "dom pps2 = dom (pps(?k \<mapsto> pp1))" "set env2 \<subseteq> set env"
        by (simp_all add: frame_def)
      have "dom ?pps3 = dom pps" using f Commit(1,4) by auto
      from unroutableAck_mono[OF u this f(2)] show "unroutableAck pps env" .
    qed
    ultimately show ?thesis by simp
  qed
qed

lemma processConsumerMessage_trace:
  "processConsumerMessage ops pps m env = (oc, pps', tr, env') \<Longrightarrow>
     (\<exists>acks rest. tr = ackRounds (PP_isReadyForMessage (cm_Partition m) False) acks @ rest \<and>
        intakeTail (cm_Partition m) (count_list env EvWritable) oc rest) \<and>
     (\<forall>pn. oc = Panicked pn \<longrightarrow> pps (cm_Partition m) = None \<or> unroutableAck pps env)"
proof (induction env arbitrary: pps oc pps' tr env' rule: length_induct)
  case (1 env)
  let ?k = "cm_Partition m"
  let ?t = "PP_isReadyForMessage ?k False"
  from "1.prems" show ?case
  proof (cases rule: processConsumerMessage_cases)
    case Nil
    then have "tr = ackRounds ?t [] @ []" "intakeTail ?k (count_list env EvWritable) oc []" by (simp_all add: intakeTail_def)
    with Nil show ?thesis by blast
  next
    case (Ready pp pp1)
    let ?pps1 = "pps(?k \<mapsto> pp1)"
    obtain oc2 pps2 rd env2 where r: "processReadyMessage ops ?pps1 m env = (oc2, pps2, rd, env2)"
      by (rule run_cases)
    from Ready(3) r have eq: "oc = oc2" "tr = PP_isReadyForMessage ?k True # rd" by simp_all
    from processReadyMessage_trace[OF r] have h: "handledTrace ?k (count_list env EvWritable) oc2 rd"
      "\<forall>pn. oc2 = Panicked pn \<longrightarrow> unroutableAck ?pps1 env" by simp_all
    have "tr = ackRounds ?t [] @ tr" by simp
    moreover have "intakeTail ?k (count_list env EvWritable) oc tr" using h(1) eq by (simp add: intakeTail_def)
    moreover have "\<forall>pn. oc = Panicked pn \<longrightarrow> pps ?k = None \<or> unroutableAck pps env"
      using h(2) eq unroutableAck_mono[of ?pps1 env pps env] Ready(1) by auto
    ultimately show ?thesis by blast
  next
    case (Block pp pp1)
    then have "tr = ackRounds ?t [] @ tr" "intakeTail ?k (count_list env EvWritable) oc tr" by (simp_all add: intakeTail_def)
    with Block show ?thesis by blast
  next
    case (AckPanic pp pp1 msg b env1 pn)
    note s = recvSuccess_Some[OF AckPanic(3)]
    from AckPanic have "tr = ackRounds ?t [] @ tr" "intakeTail ?k (count_list env EvWritable) oc tr"
      by (simp_all add: intakeTail_def)
    moreover from onProducerAck_Inl[OF AckPanic(4)] s AckPanic(1)
    have "unroutableAck pps env"
      using routable_dom[of "pps(?k \<mapsto> pp1)" pps msg] by (auto simp: unroutableAck_def)
    ultimately show ?thesis by blast
  next
    case (Ack pp pp1 msg b env1 pps2)
    note s = recvSuccess_Some[OF Ack(3)] recvSuccess_length[OF Ack(3)]
    note a = onProducerAck_Inr[OF Ack(4)]
    obtain oc2 pps3 tr2 env2 where
      r2: "processConsumerMessage ops pps2 m env1 = (oc2, pps3, tr2, env2)"
      by (rule run_cases)
    from s have "length env1 < length env" by simp
    from "1.IH"[rule_format, OF this r2] obtain acks rest where ih:
      "tr2 = ackRounds ?t acks @ rest" "intakeTail ?k (count_list env1 EvWritable) oc2 rest"
      "\<forall>pn. oc2 = Panicked pn \<longrightarrow> pps2 ?k = None \<or> unroutableAck pps2 env1"
      by blast
    from Ack(5) r2 have eq: "oc = oc2" "tr = ackRound ?t (msg, b) @ tr2" by simp_all
    have d: "dom pps2 = dom pps" using a Ack(1) by auto
    have "tr = ackRounds ?t ((msg, b) # acks) @ rest" using eq ih(1) by (simp add: ackRounds_Cons)
    moreover have "intakeTail ?k (count_list env EvWritable) oc rest" using ih(2) eq s by simp
    moreover have "\<forall>pn. oc = Panicked pn \<longrightarrow> pps ?k = None \<or> unroutableAck pps env"
    proof (intro allI impI)
      fix pn assume "oc = Panicked pn"
      with ih(3) eq have "pps2 ?k = None \<or> unroutableAck pps2 env1" by blast
      moreover have "pps2 ?k \<noteq> None" using d Ack(1) by (auto simp: domIff)
      ultimately have "unroutableAck pps2 env1" by simp
      from unroutableAck_mono[OF this d] s show "pps ?k = None \<or> unroutableAck pps env" by simp
    qed
    ultimately show ?thesis by blast
  qed
qed

lemma ackRounds_set: "a \<in> set (ackRounds t acks) \<Longrightarrow> a = t \<or> ackAction a"
  by (induction acks) (auto simp: ackRounds_Cons ackRound_def dest: routed_ackAction)

lemma inputsOf_ackRounds: "inputsOf [t] = [] \<Longrightarrow> inputsOf (ackRounds t acks) = []"
  by (induction acks; cases t) (auto simp: ackRounds_Cons ackRound_def)

lemma processConsumerMessage_shape
  [consumes 1, case_names NilPP Blocked AckPanic Stopped NoCommit Commit]:
  assumes "processConsumerMessage ops pps m env = (oc, pps', tr, env')"
  obtains
    acks where "tr = ackRounds (PP_isReadyForMessage (cm_Partition m) False) acks"
      "oc = Panicked NilDereference"
  | acks where "tr = ackRounds (PP_isReadyForMessage (cm_Partition m) False) acks @
        [PP_isReadyForMessage (cm_Partition m) False]" "oc = Blocked"
  | acks msg b pn where "tr = ackRounds (PP_isReadyForMessage (cm_Partition m) False) acks @
        [PP_isReadyForMessage (cm_Partition m) False, ProducerSuccess msg b]" "oc = Panicked pn"
  | acks outs mc sub where "tr = ackRounds (PP_isReadyForMessage (cm_Partition m) False) acks @
        PP_isReadyForMessage (cm_Partition m) True # PP_process (cm_Partition m) outs mc # sub"
      "submission outs sub" "oc \<noteq> Returned"
      "oc = Blocked \<longrightarrow> count_list env EvWritable < length outs"
  | acks outs sub where "tr = ackRounds (PP_isReadyForMessage (cm_Partition m) False) acks @
        PP_isReadyForMessage (cm_Partition m) True # PP_process (cm_Partition m) outs False # sub @
        [PP_onProcessCompleted (cm_Partition m)]"
      "submission outs sub" "inputsOf sub = outs" "oc = Returned"
  | acks outs sub acks2 rest where "tr = ackRounds (PP_isReadyForMessage (cm_Partition m) False) acks @
        PP_isReadyForMessage (cm_Partition m) True # PP_process (cm_Partition m) outs True # sub @
        PP_onProcessCompleted (cm_Partition m) #
        ackRounds (PP_isReadyToCommit (cm_Partition m) False) acks2 @ rest"
      "submission outs sub" "inputsOf sub = outs" "commitTail (cm_Partition m) oc rest"
proof -
  let ?k = "cm_Partition m"
  from processConsumerMessage_trace[OF assms] obtain acks rest where
    tr: "tr = ackRounds (PP_isReadyForMessage ?k False) acks @ rest" and it: "intakeTail ?k (count_list env EvWritable) oc rest"
    by blast
  from it consider
    (a) "rest = []" "oc = Panicked NilDereference"
  | (b) "rest = [PP_isReadyForMessage ?k False]" "oc = Blocked"
  | (c) msg b pn where "rest = [PP_isReadyForMessage ?k False, ProducerSuccess msg b]"
      "oc = Panicked pn"
  | (d) rd where "rest = PP_isReadyForMessage ?k True # rd" "handledTrace ?k (count_list env EvWritable) oc rd"
    unfolding intakeTail_def by blast
  then show ?thesis
  proof cases
    case a
    with tr that(1) show ?thesis by simp
  next
    case b
    with tr that(2) show ?thesis by simp
  next
    case c
    with tr that(3) show ?thesis by simp
  next
    case d
    from d(2) obtain outs mc sub post where h:
      "rd = PP_process ?k outs mc # sub @ post" "submission outs sub"
      "post = [] \<and> oc \<noteq> Returned \<and>
         (oc = Blocked \<longrightarrow> count_list env EvWritable < length outs) \<or>
         inputsOf sub = outs \<and>
         (\<exists>cw. post = PP_onProcessCompleted ?k # cw \<and>
            (if mc then
               \<exists>acks rest. cw = ackRounds (PP_isReadyToCommit ?k False) acks @ rest \<and>
                 commitTail ?k oc rest
             else cw = [] \<and> oc = Returned))"
      unfolding handledTrace_def submission_def by blast
    show ?thesis
    proof (cases "post = []")
      case True
      with h(3) have "oc \<noteq> Returned"
        "oc = Blocked \<longrightarrow> count_list env EvWritable < length outs" by auto
      moreover have "tr = ackRounds (PP_isReadyForMessage ?k False) acks @
        PP_isReadyForMessage ?k True # PP_process ?k outs mc # sub"
        unfolding tr d(1) h(1) True by simp
      ultimately show ?thesis using that(4) h(2) by blast
    next
      case False
      with h(3) obtain cw where p: "inputsOf sub = outs" "post = PP_onProcessCompleted ?k # cw"
        "if mc then
               \<exists>acks rest. cw = ackRounds (PP_isReadyToCommit ?k False) acks @ rest \<and>
                 commitTail ?k oc rest
             else cw = [] \<and> oc = Returned"
        by blast
      show ?thesis
      proof (cases mc)
        case mcF: False
        with p(3) have c: "cw = []" "oc = Returned" by simp_all
        have "tr = ackRounds (PP_isReadyForMessage ?k False) acks @
          PP_isReadyForMessage ?k True # PP_process ?k outs False # sub @
          [PP_onProcessCompleted ?k]"
          unfolding tr d(1) h(1) p(2) c(1) using mcF by simp
        then show ?thesis using that(5) h(2) p(1) c(2) by blast
      next
        case mcT: True
        with p(3) obtain acks2 rest2 where
          c: "cw = ackRounds (PP_isReadyToCommit ?k False) acks2 @ rest2"
             "commitTail ?k oc rest2" by auto
        have "tr = ackRounds (PP_isReadyForMessage ?k False) acks @
          PP_isReadyForMessage ?k True # PP_process ?k outs True # sub @
          PP_onProcessCompleted ?k # ackRounds (PP_isReadyToCommit ?k False) acks2 @ rest2"
          unfolding tr d(1) h(1) p(2) c(1) using mcT by simp
        then show ?thesis using that(6) h(2) p(1) c(2) by blast
      qed
    qed
  qed
qed

lemma ackAction_other:
  "ackAction a \<Longrightarrow> \<not> commitAction a \<and> \<not> intakeAction a"
  by (cases a) auto

lemma submission_member:
  "submission outs sub \<Longrightarrow> a \<in> set sub \<Longrightarrow>
     \<not> commitAction a \<and> \<not> intakeAction a \<and> a \<noteq> PP_onProcessCompleted k"
  by (auto simp: submission_def dest: ackAction_other)

lemma intakeRounds_member:
  "a \<in> set (ackRounds (PP_isReadyForMessage k False) acks) \<Longrightarrow>
     \<not> commitAction a \<and> a \<noteq> PP_onProcessCompleted j \<and> a \<noteq> PP_process j outs mc \<and>
     a \<noteq> PP_isReadyForMessage j True"
  by (auto dest!: ackRounds_set dest: ackAction_other)

lemma commitRounds_member:
  "a \<in> set (ackRounds (PP_isReadyToCommit k False) acks) \<Longrightarrow>
     \<not> intakeAction a \<and> a \<noteq> PP_onProcessCompleted j \<and>
     (commitAction a \<longrightarrow> a = PP_isReadyToCommit k False)"
  by (auto dest!: ackRounds_set dest: ackAction_other)



lemma processConsumerMessage_nil:
  "pps (cm_Partition m) = None \<Longrightarrow>
     processConsumerMessage ops pps m env = (Panicked NilDereference, pps, [], env)"
  by (subst processConsumerMessage.simps) (simp add: callPP_None Let_def)

lemma processConsumerMessage_outcome:
  assumes "processConsumerMessage ops pps m env = (oc, pps', tr, env')"
  shows "oc = Returned \<or> oc = Blocked \<or>
         (\<exists>pn. oc = Panicked pn \<and> (pps (cm_Partition m) = None \<or> unroutableAck pps env))"
proof -
  from processConsumerMessage_frame[of pps env ops m] assms have "\<forall>f. oc \<noteq> Fatal f"
    by (simp add: frame_def)
  moreover from processConsumerMessage_trace[OF assms]
  have "\<forall>pn. oc = Panicked pn \<longrightarrow> pps (cm_Partition m) = None \<or> unroutableAck pps env"
    by blast
  ultimately show ?thesis by (cases oc) auto
qed



subsection \<open>The sample run\<close>

lemma sample_run:
  "processConsumerMessage sampleOps [0 \<mapsto> 2] sampleMessage sampleEnv =
     (Returned, [0 \<mapsto> 0], sampleTrace, [EvTick])"
  by (simp add: processConsumerMessage.simps processReadyMessage_def awaitCommit.simps
      submitProducerMessages.simps callPP_def onProducerAck_def sampleOps_def sampleEnv_def
      sampleMessage_def earlierMessage_def sampleOutput_def sampleTrace_def int32_def
      andThen_def Let_def)

lemma sample_process:
  "PP_process (cm_Partition sampleMessage)
     [sampleOutput sampleMessage ''a'', sampleOutput sampleMessage ''b''] True \<in> set sampleTrace"
  by (simp add: sampleTrace_def sampleMessage_def)


subsection \<open>Construction\<close>

lemma missingSerde_None:
  "missingSerde serdes topics = None \<longleftrightarrow> (\<forall>t\<in>set topics. serdes t \<noteq> None)"
  by (induction topics) (auto split: option.splits)

lemma missingMapping_None:
  "missingMapping mapping ps = None \<longleftrightarrow> (\<forall>p\<in>set ps. mapping p \<noteq> None)"
  by (induction ps) (auto split: option.splits)

lemma makePartitionProcessors_other:
  "k \<notin> int32 ` set ps \<Longrightarrow> makePartitionProcessors mk new i ps pps k = pps k"
  by (induction ps arbitrary: i pps) auto

lemma makePartitionProcessors_dom:
  "dom (makePartitionProcessors mk new i ps pps) = dom pps \<union> int32 ` set ps"
  by (induction ps arbitrary: i pps) auto

lemma makePartitionProcessors_nth:
  "distinct (map int32 ps) \<Longrightarrow> j < length ps \<Longrightarrow>
     makePartitionProcessors mk new i ps pps (int32 (ps ! j)) = Some (new (mk (i + j)) (ps ! j))"
proof (induction ps arbitrary: i pps j)
  case Nil
  then show ?case by simp
next
  case (Cons p ps)
  show ?case
  proof (cases j)
    case 0
    from Cons.prems(1) have ni: "int32 p \<notin> int32 ` set ps" by auto
    from 0 show ?thesis by (simp add: makePartitionProcessors_other[OF ni])
  next
    case (Suc j')
    with Cons.prems have "distinct (map int32 ps)" "j' < length ps" by simp_all
    from Cons.IH[OF this] Suc show ?thesis by simp
  qed
qed

section \<open>The claims\<close>





text \<open>
  C3. When \<^verbatim>\<open>pp.process(m)\<close> has returned the list \<open>outs\<close>, the messages that
  \<^verbatim>\<open>processConsumerMessage\<close> sends on the producer input are at every moment a prefix of
  \<open>outs\<close>, in its order; they are all of \<open>outs\<close> when the call returns, and also whenever the
  producer input accepts as many sends as \<open>outs\<close> has messages and every acknowledgement
  that arrives can be routed. Between the call of \<^verbatim>\<open>pp.process\<close> and the last send the
  only other actions are receipts of producer success acknowledgements and their routing;
  no message is sent before or after that.
\<close>

theorem outputs_submitted_in_order:
  assumes "processConsumerMessage ops pps m env = (oc, pps', tr, env')"
    and "PP_process (cm_Partition m) outs mustCommit \<in> set tr"
  shows "prefix (inputsOf tr) outs \<and>
         (oc = Returned \<longrightarrow> inputsOf tr = outs) \<and>
         (length outs \<le> count_list env EvWritable \<and> \<not> unroutableAck pps env \<longrightarrow>
            inputsOf tr = outs) \<and>
         (\<exists>pre sub post.
            tr = pre @ PP_process (cm_Partition m) outs mustCommit # sub @ post \<and>
            inputsOf pre = [] \<and> inputsOf post = [] \<and>
            (\<forall>a\<in>set sub. (\<exists>p. a = ProducerInput p) \<or> ackAction a))"
proof -
  let ?k = "cm_Partition m"
  let ?A = "\<lambda>acks. ackRounds (PP_isReadyForMessage ?k False) acks"
  let ?C = "\<lambda>acks. ackRounds (PP_isReadyToCommit ?k False) acks"
  have A: "\<And>acks. PP_process ?k outs mustCommit \<notin> set (?A acks)"
    using intakeRounds_member by blast
  have iA: "\<And>acks. inputsOf (?A acks) = []" by (simp add: inputsOf_ackRounds)
  have iC: "\<And>acks. inputsOf (?C acks) = []" by (simp add: inputsOf_ackRounds)
  have key: "pps ?k \<noteq> None"
  proof
    assume "pps ?k = None"
    from processConsumerMessage_nil[of pps m ops env, OF this] assms show False by simp
  qed
  have sub: "\<And>outs' sub. submission outs' sub \<Longrightarrow> PP_process ?k outs mustCommit \<notin> set sub"
  proof
    fix outs' sub assume "submission outs' sub" "PP_process ?k outs mustCommit \<in> set sub"
    from submission_member[OF this] show False by simp
  qed
  from assms(1) show ?thesis
  proof (cases rule: processConsumerMessage_shape)
    case (NilPP acks)
    with assms(2) A show ?thesis by simp
  next
    case (Blocked acks)
    with assms(2) A show ?thesis by simp
  next
    case (AckPanic acks msg b pn)
    with assms(2) A show ?thesis by simp
  next
    case (Stopped acks outs' mc sub')
    from assms(2) A sub[OF Stopped(2)] have eq: "outs' = outs" "mc = mustCommit"
      unfolding Stopped(1) by auto
    have i: "inputsOf tr = inputsOf sub'" unfolding Stopped(1) by (simp add: iA)
    have 1: "prefix (inputsOf tr) outs" using Stopped(2) i eq by (simp add: submission_def)
    have 3: "\<not> (length outs \<le> count_list env EvWritable \<and> \<not> unroutableAck pps env)"
      using processConsumerMessage_outcome[OF assms(1)] Stopped(3,4) key eq by auto
    have 4: "tr = (?A acks @ [PP_isReadyForMessage ?k True]) @
        PP_process ?k outs mustCommit # sub' @ []"
      unfolding Stopped(1) eq by simp
    have "inputsOf (?A acks @ [PP_isReadyForMessage ?k True]) = []" by (simp add: iA)
    moreover have "inputsOf [] = []" by simp
    moreover have "\<forall>a\<in>set sub'. (\<exists>p. a = ProducerInput p) \<or> ackAction a"
      using Stopped(2) by (simp add: submission_def)
    ultimately have "\<exists>pre sub post.
            tr = pre @ PP_process ?k outs mustCommit # sub @ post \<and>
            inputsOf pre = [] \<and> inputsOf post = [] \<and>
            (\<forall>a\<in>set sub. (\<exists>p. a = ProducerInput p) \<or> ackAction a)"
      using 4 by blast
    with 1 3 Stopped(3) show ?thesis by blast
  next
    case (NoCommit acks outs' sub')
    from assms(2) A sub[OF NoCommit(2)] have eq: "outs' = outs" "mustCommit = False"
      unfolding NoCommit(1) by auto
    have i: "inputsOf tr = outs" unfolding NoCommit(1) using NoCommit(3) eq by (simp add: iA)
    have 4: "tr = (?A acks @ [PP_isReadyForMessage ?k True]) @
        PP_process ?k outs mustCommit # sub' @ [PP_onProcessCompleted ?k]"
      unfolding NoCommit(1) eq by simp
    have "inputsOf (?A acks @ [PP_isReadyForMessage ?k True]) = []" by (simp add: iA)
    moreover have "inputsOf [PP_onProcessCompleted ?k] = []" by simp
    moreover have "\<forall>a\<in>set sub'. (\<exists>p. a = ProducerInput p) \<or> ackAction a"
      using NoCommit(2) by (simp add: submission_def)
    ultimately have "\<exists>pre sub post.
            tr = pre @ PP_process ?k outs mustCommit # sub @ post \<and>
            inputsOf pre = [] \<and> inputsOf post = [] \<and>
            (\<forall>a\<in>set sub. (\<exists>p. a = ProducerInput p) \<or> ackAction a)"
      using 4 by blast
    with i show ?thesis by simp
  next
    case (Commit acks outs' sub' acks2 rest)
    have r: "inputsOf rest = []" "PP_process ?k outs mustCommit \<notin> set rest"
      using Commit(4) by (auto simp: commitTail_def split: outcome.splits)
    have C: "PP_process ?k outs mustCommit \<notin> set (?C acks2)"
      using commitRounds_member by fastforce
    from assms(2) A sub[OF Commit(2)] r C have eq: "outs' = outs" "mustCommit = True"
      unfolding Commit(1) by auto
    have i: "inputsOf tr = outs" unfolding Commit(1) using Commit(3) eq r by (simp add: iA iC)
    have 4: "tr = (?A acks @ [PP_isReadyForMessage ?k True]) @
        PP_process ?k outs mustCommit # sub' @ (PP_onProcessCompleted ?k # ?C acks2 @ rest)"
      unfolding Commit(1) eq by simp
    have "inputsOf (?A acks @ [PP_isReadyForMessage ?k True]) = []" by (simp add: iA)
    moreover have "inputsOf (PP_onProcessCompleted ?k # ?C acks2 @ rest) = []"
      using r by (simp add: iC)
    moreover have "\<forall>a\<in>set sub'. (\<exists>p. a = ProducerInput p) \<or> ackAction a"
      using Commit(2) by (simp add: submission_def)
    ultimately have "\<exists>pre sub post.
            tr = pre @ PP_process ?k outs mustCommit # sub @ post \<and>
            inputsOf pre = [] \<and> inputsOf post = [] \<and>
            (\<forall>a\<in>set sub. (\<exists>p. a = ProducerInput p) \<or> ackAction a)"
      using 4 by blast
    with i show ?thesis by simp
  qed
qed

theorem outputs_submitted_in_order_witness:
  "prefix (inputsOf sampleTrace)
     [sampleOutput sampleMessage ''a'', sampleOutput sampleMessage ''b''] \<and>
   inputsOf sampleTrace = [sampleOutput sampleMessage ''a'', sampleOutput sampleMessage ''b''] \<and>
   (\<exists>pre sub post.
      sampleTrace = pre @ PP_process (cm_Partition sampleMessage)
        [sampleOutput sampleMessage ''a'', sampleOutput sampleMessage ''b''] True # sub @ post \<and>
      inputsOf pre = [] \<and> inputsOf post = [] \<and>
      (\<forall>a\<in>set sub. (\<exists>p. a = ProducerInput p) \<or> ackAction a))"
  using outputs_submitted_in_order[OF sample_run sample_process] by blast

text \<open>
  C4. For an acknowledgement that carries a message (\<^verbatim>\<open>more = true\<close>) whose
  \<^verbatim>\<open>Metadata\<close> points to an \<^verbatim>\<open>IncomingMessage\<close>, \<^verbatim>\<open>onProducerAck\<close> calls
  \<^verbatim>\<open>onProducerAck\<close> of the partition processor stored under the partition of that
  incoming message, with the acknowledged message, and of no other: the partition
  processor under every other key is unchanged.
\<close>

theorem onProducerAck_routes_by_metadata:
  assumes "Metadata pm = IncomingMessagePtr (Some incomingMessage)"
    and "pps (int32 (im_Partition incomingMessage)) = Some pp"
  shows "onProducerAck ops pps (Some pm) True =
           Inr (pps(int32 (im_Partition incomingMessage) \<mapsto> pp_onProducerAck ops pm pp),
                [PP_onProducerAck (int32 (im_Partition incomingMessage)) pm])"
  using assms by (simp add: onProducerAck_def callPP_def)

theorem onProducerAck_routes_by_metadata_witness:
  "onProducerAck sampleOps [0 \<mapsto> 2, 1 \<mapsto> 5] (Some (sampleOutput sampleMessage ''a'')) True =
     Inr ([0 \<mapsto> 1, 1 \<mapsto> 5], [PP_onProducerAck 0 (sampleOutput sampleMessage ''a'')])"
proof -
  have m: "Metadata (sampleOutput sampleMessage ''a'') =
      IncomingMessagePtr (Some \<lparr> im_Topic = ''in'', im_Partition = 0, im_Offset = 7 \<rparr>)"
    by (simp add: sampleOutput_def sampleMessage_def)
  have k: "[0 \<mapsto> 2, 1 \<mapsto> 5] (int32 (im_Partition
      \<lparr> im_Topic = ''in'', im_Partition = 0, im_Offset = 7 \<rparr>)) = Some (2::nat)"
    by (simp add: int32_def)
  have u: "[0 \<mapsto> 2, 1 \<mapsto> 5](0 \<mapsto> Suc 0) = [0 \<mapsto> Suc 0, (1::int32) \<mapsto> (5::nat)]"
    by (rule ext) simp
  from onProducerAck_routes_by_metadata[of "sampleOutput sampleMessage ''a''"
      "\<lparr> im_Topic = ''in'', im_Partition = 0, im_Offset = 7 \<rparr>" "[0 \<mapsto> 2, 1 \<mapsto> 5]" 2 sampleOps,
      OF m k]
  show ?thesis by (simp add: int32_def sampleOps_def u)
qed

text \<open>
  C5. \<^verbatim>\<open>onProducerError\<close> ends the process with \<^verbatim>\<open>log.Fatal\<close> for every error, and
  the task that drains the error stream hands the first error it receives to
  \<^verbatim>\<open>onProducerError\<close>: the task ends normally only when the stream is closed without any
  error delivered; there is no path on which an error is retried or survived.
\<close>

theorem producer_errors_are_fatal:
  "onProducerError err = Fatal (ProducerSendError (pe_Err err)) \<and>
   drainProducerErrors (err # errs) = Fatal (ProducerSendError (pe_Err err)) \<and>
   drainProducerErrors [] = Returned"
  by (simp add: onProducerError_def)

text \<open>
  C6, as the code has it. \<^verbatim>\<open>NewTopicProcessor\<close> ends with \<^verbatim>\<open>log.Fatal\<close> when the container
  id is outside \<open>[0, ContainerCount)\<close>, when an input topic has no entry in
  \<^verbatim>\<open>TopicSerdes\<close>, when a partition of this container has no entry in
  \<^verbatim>\<open>PartitionToContainerID\<close>, and also when the client, the offset manager or the producer
  cannot be created. Otherwise it returns a topic processor whose partition processors
  are stored under the keys \<^verbatim>\<open>int32(partition)\<close> of the partitions of this container;
  when these keys are distinct, the partition processor of each partition is the one
  created for it from its own call of the factory.
\<close>

theorem NewTopicProcessor_setup:
  "(cid < 0 \<or> ContainerCount cfg \<le> cid \<longrightarrow>
      NewTopicProcessor cfg partitionsForContainer brk makeProcessor newPartitionProcessor cid =
        Inl (ContainerIDOutOfRange (ContainerCount cfg) cid)) \<and>
   ((\<exists>topic\<in>set (InputTopics cfg). TopicSerdes cfg topic = None) \<longrightarrow>
      (\<exists>f. NewTopicProcessor cfg partitionsForContainer brk makeProcessor newPartitionProcessor cid =
        Inl f)) \<and>
   ((\<exists>p\<in>set (partitionsForContainer cfg cid). PartitionToContainerID cfg p = None) \<longrightarrow>
      (\<exists>f. NewTopicProcessor cfg partitionsForContainer brk makeProcessor newPartitionProcessor cid =
        Inl f)) \<and>
   (NewClient brk \<noteq> None \<or> NewOffsetManagerFromClient brk \<noteq> None \<or> NewAsyncProducer brk \<noteq> None \<longrightarrow>
      (\<exists>f. NewTopicProcessor cfg partitionsForContainer brk makeProcessor newPartitionProcessor cid =
        Inl f)) \<and>
   (0 \<le> cid \<and> cid < ContainerCount cfg \<and>
    (\<forall>topic\<in>set (InputTopics cfg). TopicSerdes cfg topic \<noteq> None) \<and>
    (\<forall>p\<in>set (partitionsForContainer cfg cid). PartitionToContainerID cfg p \<noteq> None) \<and>
    NewClient brk = None \<and> NewOffsetManagerFromClient brk = None \<and> NewAsyncProducer brk = None \<longrightarrow>
      (\<exists>tp. NewTopicProcessor cfg partitionsForContainer brk makeProcessor newPartitionProcessor cid =
         Inr tp \<and>
         containerID tp = cid \<and> partitions tp = partitionsForContainer cfg cid \<and>
         dom (partitionProcessors tp) = int32 ` set (partitionsForContainer cfg cid) \<and>
         (distinct (map int32 (partitionsForContainer cfg cid)) \<longrightarrow>
            (\<forall>j<length (partitionsForContainer cfg cid).
               partitionProcessors tp (int32 (partitionsForContainer cfg cid ! j)) =
                 Some (newPartitionProcessor (makeProcessor j) (partitionsForContainer cfg cid ! j))))))"
proof -
  let ?N = "NewTopicProcessor cfg partitionsForContainer brk makeProcessor newPartitionProcessor cid"
  let ?ps = "partitionsForContainer cfg cid"
  have 1: "cid < 0 \<or> ContainerCount cfg \<le> cid \<longrightarrow>
      ?N = Inl (ContainerIDOutOfRange (ContainerCount cfg) cid)"
    by (auto simp: NewTopicProcessor_def)
  have 2: "(\<exists>topic\<in>set (InputTopics cfg). TopicSerdes cfg topic = None) \<longrightarrow> (\<exists>f. ?N = Inl f)"
  proof
    assume "\<exists>topic\<in>set (InputTopics cfg). TopicSerdes cfg topic = None"
    then have "missingSerde (TopicSerdes cfg) (InputTopics cfg) \<noteq> None"
      by (simp add: missingSerde_None)
    then show "\<exists>f. ?N = Inl f" by (auto simp: NewTopicProcessor_def)
  qed
  have 4: "NewClient brk \<noteq> None \<or> NewOffsetManagerFromClient brk \<noteq> None \<or>
      NewAsyncProducer brk \<noteq> None \<longrightarrow> (\<exists>f. ?N = Inl f)"
    by (auto simp: NewTopicProcessor_def mustSetupProducer_def Let_def split: option.splits)
  have 3: "(\<exists>p\<in>set ?ps. PartitionToContainerID cfg p = None) \<longrightarrow> (\<exists>f. ?N = Inl f)"
  proof
    assume "\<exists>p\<in>set ?ps. PartitionToContainerID cfg p = None"
    then have "missingMapping (PartitionToContainerID cfg) ?ps \<noteq> None"
      by (simp add: missingMapping_None)
    then show "\<exists>f. ?N = Inl f"
      by (auto simp: NewTopicProcessor_def mustSetupProducer_def Let_def split: option.splits)
  qed
  have 5: "0 \<le> cid \<and> cid < ContainerCount cfg \<and>
    (\<forall>topic\<in>set (InputTopics cfg). TopicSerdes cfg topic \<noteq> None) \<and>
    (\<forall>p\<in>set ?ps. PartitionToContainerID cfg p \<noteq> None) \<and>
    NewClient brk = None \<and> NewOffsetManagerFromClient brk = None \<and> NewAsyncProducer brk = None \<longrightarrow>
      (\<exists>tp. ?N = Inr tp \<and> containerID tp = cid \<and> partitions tp = ?ps \<and>
         dom (partitionProcessors tp) = int32 ` set ?ps \<and>
         (distinct (map int32 ?ps) \<longrightarrow>
            (\<forall>j<length ?ps. partitionProcessors tp (int32 (?ps ! j)) =
                 Some (newPartitionProcessor (makeProcessor j) (?ps ! j)))))"
  proof
    assume a: "0 \<le> cid \<and> cid < ContainerCount cfg \<and>
      (\<forall>topic\<in>set (InputTopics cfg). TopicSerdes cfg topic \<noteq> None) \<and>
      (\<forall>p\<in>set ?ps. PartitionToContainerID cfg p \<noteq> None) \<and>
      NewClient brk = None \<and> NewOffsetManagerFromClient brk = None \<and> NewAsyncProducer brk = None"
    let ?tp = "\<lparr> config = cfg, containerID = cid,
                partitionProcessors =
                  makePartitionProcessors makeProcessor newPartitionProcessor 0 ?ps Map.empty,
                inputTopics = InputTopics cfg, partitions = ?ps \<rparr>"
    from a have s: "missingSerde (TopicSerdes cfg) (InputTopics cfg) = None"
      "missingMapping (PartitionToContainerID cfg) ?ps = None"
      by (simp_all add: missingSerde_None missingMapping_None)
    with a have "?N = Inr ?tp"
      by (simp add: NewTopicProcessor_def mustSetupProducer_def Let_def)
    moreover have "dom (partitionProcessors ?tp) = int32 ` set ?ps"
      by (simp add: makePartitionProcessors_dom)
    moreover have "distinct (map int32 ?ps) \<longrightarrow>
            (\<forall>j<length ?ps. partitionProcessors ?tp (int32 (?ps ! j)) =
                 Some (newPartitionProcessor (makeProcessor j) (?ps ! j)))"
      using makePartitionProcessors_nth[of ?ps _ makeProcessor newPartitionProcessor 0 Map.empty]
      by simp
    ultimately show "\<exists>tp. ?N = Inr tp \<and> containerID tp = cid \<and> partitions tp = ?ps \<and>
         dom (partitionProcessors tp) = int32 ` set ?ps \<and>
         (distinct (map int32 ?ps) \<longrightarrow>
            (\<forall>j<length ?ps. partitionProcessors tp (int32 (?ps ! j)) =
                 Some (newPartitionProcessor (makeProcessor j) (?ps ! j))))"
      by (intro exI[of _ ?tp]) simp
  qed
  from 1 2 3 4 5 show ?thesis by blast
qed

theorem NewTopicProcessor_setup_witness:
  "NewTopicProcessor sampleConfig samplePartitions brokerUp (\<lambda>i. i) (\<lambda>processor p. (processor, p)) 1 =
     Inl (ContainerIDOutOfRange 1 1) \<and>
   (\<exists>f. NewTopicProcessor (sampleConfig\<lparr>TopicSerdes := Map.empty\<rparr>) samplePartitions brokerUp
          (\<lambda>i. i) (\<lambda>processor p. (processor, p)) 0 = Inl f) \<and>
   (\<exists>f. NewTopicProcessor sampleConfig (\<lambda>cfg cid. [0, 3]) brokerUp
          (\<lambda>i. i) (\<lambda>processor p. (processor, p)) 0 = Inl f) \<and>
   (\<exists>f. NewTopicProcessor sampleConfig samplePartitions brokerDown
          (\<lambda>i. i) (\<lambda>processor p. (processor, p)) 0 = Inl f) \<and>
   (\<exists>tp. NewTopicProcessor sampleConfig samplePartitions brokerUp
          (\<lambda>i. i) (\<lambda>processor p. (processor, p)) 0 = Inr tp \<and>
         dom (partitionProcessors tp) = {0} \<and> partitionProcessors tp 0 = Some (0, 0))"
proof -
  let ?mk = "\<lambda>i::nat. i" and ?new = "\<lambda>(processor::nat) (p::int). (processor, p)"
  have 1: "NewTopicProcessor sampleConfig samplePartitions brokerUp ?mk ?new 1 =
     Inl (ContainerIDOutOfRange 1 1)"
    using NewTopicProcessor_setup[of 1 sampleConfig samplePartitions brokerUp ?mk ?new]
    by (simp add: sampleConfig_def)
  have 2: "\<exists>f. NewTopicProcessor (sampleConfig\<lparr>TopicSerdes := Map.empty\<rparr>) samplePartitions brokerUp
          ?mk ?new 0 = Inl f"
    using NewTopicProcessor_setup[of 0 "sampleConfig\<lparr>TopicSerdes := Map.empty\<rparr>"
        samplePartitions brokerUp ?mk ?new]
    by (simp add: sampleConfig_def)
  have 3: "\<exists>f. NewTopicProcessor sampleConfig (\<lambda>cfg cid. [0, 3]) brokerUp ?mk ?new 0 = Inl f"
    using NewTopicProcessor_setup[of 0 sampleConfig "\<lambda>cfg cid. [0, 3]" brokerUp ?mk ?new]
    by (simp add: sampleConfig_def)
  have 4: "\<exists>f. NewTopicProcessor sampleConfig samplePartitions brokerDown ?mk ?new 0 = Inl f"
    using NewTopicProcessor_setup[of 0 sampleConfig samplePartitions brokerDown ?mk ?new]
    by (simp add: brokerDown_def)
  have 5: "\<exists>tp. NewTopicProcessor sampleConfig samplePartitions brokerUp ?mk ?new 0 = Inr tp \<and>
         dom (partitionProcessors tp) = {0} \<and> partitionProcessors tp 0 = Some (0, 0)"
    using NewTopicProcessor_setup[of 0 sampleConfig samplePartitions brokerUp ?mk ?new]
    by (auto simp: sampleConfig_def samplePartitions_def brokerUp_def int32_def)
  from 1 2 3 4 5 show ?thesis by blast
qed

text \<open>
  C6 as stated fails: with a container id in range, a serde for the input topic and a
  container for the partition, \<^verbatim>\<open>NewTopicProcessor\<close> still ends with \<^verbatim>\<open>log.Fatal\<close> when
  \<^verbatim>\<open>sarama.NewClient\<close> returns an error.
\<close>

theorem NewTopicProcessor_broker_down:
  "(0::int) < ContainerCount sampleConfig \<and>
   InputTopics sampleConfig = [''in''] \<and>
   TopicSerdes sampleConfig ''in'' = Some sampleSerde \<and>
   samplePartitions sampleConfig 0 = [0] \<and>
   PartitionToContainerID sampleConfig 0 = Some 0 \<and>
   NewTopicProcessor sampleConfig samplePartitions brokerDown
       (\<lambda>i::nat. i) (\<lambda>(processor::nat) (p::int). (processor, p)) 0 =
     Inl (NewClientError ''no broker available'')"
  by (simp add: NewTopicProcessor_def sampleConfig_def samplePartitions_def brokerDown_def)

text \<open>
  C7, as the code has it. \<^verbatim>\<open>Shutdown\<close>, called while the shutdown channel is open, closes
  it and waits on the wait group: it returns when the counter of the wait group reaches
  zero and blocks otherwise. On the shutdown signal the coordinator closes the fan-in
  synchroniser channel, stops the commit ticker when there is one, calls \<^verbatim>\<open>onShutdown\<close> of
  every partition processor and closes the producer. When closing the producer fails the
  process ends with \<^verbatim>\<open>log.Fatal\<close> and the log client is not closed; otherwise the log client
  is closed, and the coordinator returns unless closing the client fails, which ends the
  process with \<^verbatim>\<open>log.Fatal\<close> as well.
\<close>

theorem shutdown_sequence:
  "Shutdown False counters =
     (if 0 \<in> set counters then Returned else Blocked, [CloseShutdownChan, WaitGroupWait]) \<and>
   (selectRunLoop ticker env = Some (GotShutdown, env1) \<longrightarrow>
      runLoop ops ticker producerClose clientClose pps env =
        (case producerClose of
           Some err \<Rightarrow> Fatal (ProducerCloseError err)
         | None \<Rightarrow> (case clientClose of
                      Some err \<Rightarrow> Fatal (ClientCloseError err)
                    | None \<Rightarrow> Returned),
         (\<lambda>k. map_option (pp_onShutdown ops) (pps k)),
         [ShutdownReceived, CloseConsumerSyncChan] @ (if ticker then [TickerStop] else []) @
         [Range_onShutdown (dom pps), ProducerClose] @
         (if producerClose = None then [ClientClose] else []),
         env1))"
proof -
  have 1: "Shutdown False counters =
     (if 0 \<in> set counters then Returned else Blocked, [CloseShutdownChan, WaitGroupWait])"
    by (simp add: Shutdown_def)
  have 2: "selectRunLoop ticker env = Some (GotShutdown, env1) \<longrightarrow>
      runLoop ops ticker producerClose clientClose pps env =
        (case producerClose of
           Some err \<Rightarrow> Fatal (ProducerCloseError err)
         | None \<Rightarrow> (case clientClose of
                      Some err \<Rightarrow> Fatal (ClientCloseError err)
                    | None \<Rightarrow> Returned),
         (\<lambda>k. map_option (pp_onShutdown ops) (pps k)),
         [ShutdownReceived, CloseConsumerSyncChan] @ (if ticker then [TickerStop] else []) @
         [Range_onShutdown (dom pps), ProducerClose] @
         (if producerClose = None then [ClientClose] else []),
         env1)"
    by (subst runLoop.simps) (simp add: onShutdown_def Let_def split: option.splits)
  from 1 2 show ?thesis by blast
qed

theorem shutdown_sequence_witness:
  "Shutdown False [2, 1, 0] = (Returned, [CloseShutdownChan, WaitGroupWait]) \<and>
   runLoop sampleOps True None None [0 \<mapsto> 2] [EvWritable, EvShutdown, EvTick] =
     (Returned, (\<lambda>k. map_option (pp_onShutdown sampleOps) ([0 \<mapsto> 2] k)),
      [ShutdownReceived, CloseConsumerSyncChan, TickerStop, Range_onShutdown {0}, ProducerClose,
       ClientClose],
      [EvWritable, EvTick])"
  using shutdown_sequence[of "[2, 1, 0]" True "[EvWritable, EvShutdown, EvTick]"
      "[EvWritable, EvTick]" sampleOps None None "[0 \<mapsto> 2]"]
  by simp

text \<open>
  C7 as stated fails: when \<^verbatim>\<open>tp.producer.Close()\<close> returns an error the coordinator does
  not close the log client and does not return; the process ends with \<^verbatim>\<open>log.Fatal\<close>.
\<close>

theorem shutdown_producer_close_fails:
  "fst (runLoop sampleOps True (Some ''close failed'') None [0 \<mapsto> 2] [EvShutdown]) =
     Fatal (ProducerCloseError ''close failed'') \<and>
   fst (snd (snd (runLoop sampleOps True (Some ''close failed'') None [0 \<mapsto> 2] [EvShutdown]))) =
     [ShutdownReceived, CloseConsumerSyncChan, TickerStop, Range_onShutdown {0}, ProducerClose] \<and>
   ClientClose \<notin> set (fst (snd (snd
     (runLoop sampleOps True (Some ''close failed'') None [0 \<mapsto> 2] [EvShutdown]))))"
  by (simp add: runLoop.simps onShutdown_def)





text \<open>
  C10. Called with \<^verbatim>\<open>more = false\<close>, \<^verbatim>\<open>onProducerAck\<close> returns at once: whatever the
  message pointer is, it is not read, no method of a partition processor is called, and
  every partition processor is as before.
\<close>

theorem onProducerAck_closed_channel:
  "onProducerAck ops pps producerMessage False = Inr (pps, [])"
  by (simp add: onProducerAck_def)

end
